theory Spec2Isabelle
  imports Main
begin

section \<open>JavaScript strings\<close>

text \<open>
  The helper service is JavaScript. Its strings are modelled as \<^typ>\<open>string\<close>, read as
  ASCII text: the case conversions below change the letters A to Z and a to z only, and a
  character is one element of the list.
\<close>

definition upperLetters :: string where
  "upperLetters = ''ABCDEFGHIJKLMNOPQRSTUVWXYZ''"

definition lowerLetters :: string where
  "lowerLetters = ''abcdefghijklmnopqrstuvwxyz''"

definition digitChars :: string where
  "digitChars = ''0123456789''"

definition lowerChar :: "char \<Rightarrow> char" where
  "lowerChar c = (case map_of (zip upperLetters lowerLetters) c of Some l \<Rightarrow> l | None \<Rightarrow> c)"

definition upperChar :: "char \<Rightarrow> char" where
  "upperChar c = (case map_of (zip lowerLetters upperLetters) c of Some u \<Rightarrow> u | None \<Rightarrow> c)"

text \<open>\<^verbatim>\<open>String.prototype.toLowerCase\<close> and \<^verbatim>\<open>toUpperCase\<close>.\<close>

definition toLowerCase :: "string \<Rightarrow> string" where
  "toLowerCase s = map lowerChar s"

definition toUpperCase :: "string \<Rightarrow> string" where
  "toUpperCase s = map upperChar s"

text \<open>\<^verbatim>\<open>s.startsWith(p)\<close>.\<close>

definition startsWith :: "string \<Rightarrow> string \<Rightarrow> bool" where
  "startsWith s p = (take (length p) s = p)"

text \<open>\<^verbatim>\<open>s.includes(sub)\<close>: \<open>sub\<close> occurs somewhere in \<open>s\<close>.\<close>

fun includesStr :: "string \<Rightarrow> string \<Rightarrow> bool" where
  "includesStr [] sub = (sub = [])"
| "includesStr (c # cs) sub = (startsWith (c # cs) sub \<or> includesStr cs sub)"

text \<open>
  JavaScript truthiness of an optional string: \<^verbatim>\<open>undefined\<close> and the empty string are
  falsy.
\<close>

fun truthy :: "string option \<Rightarrow> bool" where
  "truthy None = False"
| "truthy (Some s) = (s \<noteq> [])"

text \<open>
  \<^verbatim>\<open>n.toString()\<close> for a non-negative integer, and \<^verbatim>\<open>s.padStart(2, '0')\<close>.
\<close>

function showNat :: "nat \<Rightarrow> string" where
  "showNat n = (if n < 10 then [digitChars ! n] else showNat (n div 10) @ [digitChars ! (n mod 10)])"
  by pat_completeness auto
termination
  by (relation "measure id") auto

declare showNat.simps [simp del]

definition padStart2 :: "string \<Rightarrow> string" where
  "padStart2 s = replicate (2 - length s) (CHR ''0'') @ s"

text \<open>The value of a decimal digit, and \<^verbatim>\<open>parseInt\<close> on a string of decimal digits.\<close>

definition digitVal :: "char \<Rightarrow> nat" where
  "digitVal c = (case map_of (zip digitChars [0, 1, 2, 3, 4, 5, 6, 7, 8, 9]) c of
                   Some v \<Rightarrow> v | None \<Rightarrow> 0)"

definition parseInt :: "string \<Rightarrow> nat" where
  "parseInt ds = foldl (\<lambda>acc c. 10 * acc + digitVal c) 0 ds"

section \<open>Regular expressions\<close>

text \<open>
  The regular expressions of the service use literals, the classes \<^verbatim>\<open>\d\<close>, \<^verbatim>\<open>\w\<close> and
  \<^verbatim>\<open>\s\<close> under a greedy quantifier, sequence, alternation, the greedy option \<^verbatim>\<open>?\<close> and
  numbered capture groups. A backtracking matcher tries the alternatives in a fixed order;
  \<open>rxMatch\<close> returns every way to match at the start of the text, in that order, so
  that the head of the list is the match JavaScript reports.
\<close>

datatype cclass = Digit | WordCh | Space

datatype rx =
    Lit string
  | Rep cclass nat "nat option"
  | Seq rx rx
  | Alt rx rx
  | Opt rx
  | Grp nat rx

definition spaceChars :: string where
  "spaceChars = [CHR 0x20, CHR 0x09, CHR 0x0A, CHR 0x0B, CHR 0x0C, CHR 0x0D]"

fun inClass :: "cclass \<Rightarrow> char \<Rightarrow> bool" where
  "inClass Digit c = (c \<in> set digitChars)"
| "inClass WordCh c = (c \<in> set (upperLetters @ lowerLetters @ digitChars @ ''_''))"
| "inClass Space c = (c \<in> set spaceChars)"

type_synonym captures = "(nat \<times> string) list"

text \<open>A literal matches the text itself, or, under the flag \<^verbatim>\<open>i\<close>, any casing of it.\<close>

definition litMatches :: "bool \<Rightarrow> string \<Rightarrow> string \<Rightarrow> bool" where
  "litMatches ic l s =
     (length l \<le> length s \<and>
      (if ic then toLowerCase (take (length l) s) = toLowerCase l else take (length l) s = l))"

fun rxMatch :: "bool \<Rightarrow> rx \<Rightarrow> string \<times> captures \<Rightarrow> (string \<times> captures) list" where
  "rxMatch ic (Lit l) (s, cs) = (if litMatches ic l s then [(drop (length l) s, cs)] else [])"
| "rxMatch ic (Rep c lo hi) (s, cs) =
     (let n = length (takeWhile (inClass c) s);
          m = (case hi of None \<Rightarrow> n | Some h \<Rightarrow> min n h)
      in map (\<lambda>k. (drop k s, cs)) (rev [lo ..< Suc m]))"
| "rxMatch ic (Seq a b) st = concat (map (rxMatch ic b) (rxMatch ic a st))"
| "rxMatch ic (Alt a b) st = rxMatch ic a st @ rxMatch ic b st"
| "rxMatch ic (Opt a) st = rxMatch ic a st @ [st]"
| "rxMatch ic (Grp k a) (s, cs) =
     map (\<lambda>(r, cs'). (r, (k, take (length s - length r) s) # cs')) (rxMatch ic a (s, cs))"

text \<open>
  \<^verbatim>\<open>text.match(re)\<close> for a regular expression without the flag \<^verbatim>\<open>g\<close>: the leftmost
  position where the expression matches; the result is the matched text (element 0 of the
  JavaScript array) and the capture groups.
\<close>

fun rxSearch :: "bool \<Rightarrow> rx \<Rightarrow> string \<Rightarrow> (string \<times> captures) option" where
  "rxSearch ic r [] =
     (case rxMatch ic r ([], []) of [] \<Rightarrow> None | (rest, cs) # _ \<Rightarrow> Some ([], cs))"
| "rxSearch ic r (c # s) =
     (case rxMatch ic r (c # s, []) of
        [] \<Rightarrow> rxSearch ic r s
      | (rest, cs) # _ \<Rightarrow> Some (take (length (c # s) - length rest) (c # s), cs))"

text \<open>
  Element \<open>k\<close> of the match array: \<open>None\<close> is \<^verbatim>\<open>undefined\<close>. \<open>grpText\<close> reads a
  group that takes part in every match of its expression.
\<close>

definition grp :: "captures \<Rightarrow> nat \<Rightarrow> string option" where
  "grp cs k = map_of cs k"

definition grpText :: "captures \<Rightarrow> nat \<Rightarrow> string" where
  "grpText cs k = (case grp cs k of Some g \<Rightarrow> g | None \<Rightarrow> [])"

text \<open>\<^verbatim>\<open>g || dflt\<close> for a capture group.\<close>

definition grpOr :: "captures \<Rightarrow> nat \<Rightarrow> string \<Rightarrow> string" where
  "grpOr cs k dflt = (if truthy (grp cs k) then the (grp cs k) else dflt)"

section \<open>Time extraction of parseDateTimeString\<close>

record targetTime =
  hour :: nat
  minute :: nat
  period :: string

text \<open>
  \<^verbatim>\<open>/(?:at\s+)?(\d{1,2})(?::(\d{2}))?\s*(am|pm|AM|PM)|(?:at\s+)?noon|(?:at\s+)?midnight/i\<close>
\<close>

definition optAt :: rx where
  "optAt = Opt (Seq (Lit ''at'') (Rep Space 1 None))"

definition timeRx :: rx where
  "timeRx =
     Alt (Seq optAt
           (Seq (Grp 1 (Rep Digit 1 (Some 2)))
             (Seq (Opt (Seq (Lit '':'') (Grp 2 (Rep Digit 2 (Some 2)))))
               (Seq (Rep Space 0 None)
                 (Grp 3 (Alt (Lit ''am'') (Alt (Lit ''pm'') (Alt (Lit ''AM'') (Lit ''PM'')))))))))
      (Alt (Seq optAt (Lit ''noon''))
           (Seq optAt (Lit ''midnight'')))"

text \<open>
  The second half of parseDateTimeString (the code after the comment
  ``Extract time if present''): \<open>None\<close> is the \<^verbatim>\<open>null\<close> that \<^verbatim>\<open>targetTime\<close> keeps when
  the expression does not match.
\<close>

definition parseTime :: "string \<Rightarrow> targetTime option" where
  "parseTime dateTimeStr =
     (case rxSearch True timeRx dateTimeStr of
        None \<Rightarrow> None
      | Some (m0, cs) \<Rightarrow>
          (let fullMatch = toLowerCase m0 in
           if includesStr fullMatch ''noon'' then Some \<lparr>hour = 12, minute = 0, period = ''PM''\<rparr>
           else if includesStr fullMatch ''midnight'' then Some \<lparr>hour = 12, minute = 0, period = ''AM''\<rparr>
           else
             (let hour = parseInt (grpOr cs 1 ''12'');
                  minute = parseInt (grpOr cs 2 ''0'');
                  period = toUpperCase (grpOr cs 3 '''');
                  finalPeriod =
                    (if period = [] then
                       (if hour = 12 then ''PM''
                        else if 1 \<le> hour \<and> hour \<le> 6 then ''PM''
                        else if 7 \<le> hour \<and> hour \<le> 11 then ''AM''
                        else ''PM'')
                     else period)
              in Some \<lparr>hour = hour, minute = minute, period = finalPeriod\<rparr>)))"

text \<open>
  A text names a meridiem when it has ``am'', ``pm'', ``noon'' or ``midnight'' somewhere
  in it; the theorems on the time expression are stated with this predicate.
\<close>

definition hasMeridiem :: "string \<Rightarrow> bool" where
  "hasMeridiem m \<longleftrightarrow> includesStr m ''am'' \<or> includesStr m ''pm'' \<or>
     includesStr m ''noon'' \<or> includesStr m ''midnight''"

section \<open>Dates\<close>

text \<open>
  A \<^verbatim>\<open>Date\<close> holds a time value, the milliseconds since 1 January 1970. The functions
  below are those of the ECMAScript specification (Day, TimeWithinDay, DaysInYear,
  DayFromYear, YearFromTime, MonthFromTime, DateFromTime, WeekDay, MakeDay, MakeDate)
  and the methods of \<^verbatim>\<open>Date.prototype\<close> defined from them. The time value is read as
  local time with a fixed offset from UTC, and stays inside the range of valid dates, so
  that no method yields an invalid date.
\<close>

definition msPerDay :: int where
  "msPerDay = 86400000"

definition Day :: "int \<Rightarrow> int" where
  "Day t = t div msPerDay"

definition TimeWithinDay :: "int \<Rightarrow> int" where
  "TimeWithinDay t = t mod msPerDay"

definition DaysInYear :: "int \<Rightarrow> int" where
  "DaysInYear y =
     (if y mod 4 \<noteq> 0 then 365
      else if y mod 100 \<noteq> 0 then 366
      else if y mod 400 \<noteq> 0 then 365
      else 366)"

definition DayFromYear :: "int \<Rightarrow> int" where
  "DayFromYear y = 365 * (y - 1970) + (y - 1969) div 4 - (y - 1901) div 100 + (y - 1601) div 400"

text \<open>
  YearFromTime is the largest year that starts on or before the day. It is found by a
  search: down from an estimate to a year that starts on or before the day, then up to
  the last such year.
\<close>

function yearDown :: "int \<Rightarrow> int \<Rightarrow> int" where
  "yearDown y d = (if d < DayFromYear y then yearDown (y - 1) d else y)"
  by pat_completeness auto
termination
proof (relation "measure (\<lambda>(y, d). nat (DayFromYear y - d))")
  show "wf (measure (\<lambda>(y, d). nat (DayFromYear y - d)))"
    by simp
next
  fix y d :: int
  assume less: "d < DayFromYear y"
  have a: "(y - 1 - 1969) div 4 \<le> (y - 1969) div 4"
    by (rule zdiv_mono1) simp_all
  have "(y - 1901) div 100 \<le> (y - 1 - 1901 + 100) div 100"
    by (rule zdiv_mono1) simp_all
  then have b: "(y - 1901) div 100 \<le> (y - 1 - 1901) div 100 + 1"
    by simp
  have c: "(y - 1 - 1601) div 400 \<le> (y - 1601) div 400"
    by (rule zdiv_mono1) simp_all
  have sum: "365 * (y - 1 - 1970) + p - q + r < 365 * (y - 1970) + p' - q' + r'"
    if "p \<le> p'" "q' \<le> q + 1" "r \<le> r'" for p q r p' q' r' :: int
    using that by (simp add: algebra_simps)
  have "DayFromYear (y - 1) < DayFromYear y"
    unfolding DayFromYear_def using a b c by (rule sum)
  with less show "((y - 1, d), (y, d)) \<in> measure (\<lambda>(y, d). nat (DayFromYear y - d))"
    by simp
qed

function yearUp :: "int \<Rightarrow> int \<Rightarrow> int" where
  "yearUp y d = (if DayFromYear (y + 1) \<le> d then yearUp (y + 1) d else y)"
  by pat_completeness auto
termination
proof (relation "measure (\<lambda>(y, d). nat (d + 1 - DayFromYear y))")
  show "wf (measure (\<lambda>(y, d). nat (d + 1 - DayFromYear y)))"
    by simp
next
  fix y d :: int
  assume le: "DayFromYear (y + 1) \<le> d"
  have a: "(y - 1969) div 4 \<le> (y + 1 - 1969) div 4"
    by (rule zdiv_mono1) simp_all
  have "(y + 1 - 1901) div 100 \<le> (y - 1901 + 100) div 100"
    by (rule zdiv_mono1) simp_all
  then have b: "(y + 1 - 1901) div 100 \<le> (y - 1901) div 100 + 1"
    by simp
  have c: "(y - 1601) div 400 \<le> (y + 1 - 1601) div 400"
    by (rule zdiv_mono1) simp_all
  have sum: "365 * (y - 1970) + p - q + r < 365 * (y + 1 - 1970) + p' - q' + r'"
    if "p \<le> p'" "q' \<le> q + 1" "r \<le> r'" for p q r p' q' r' :: int
    using that by (simp add: algebra_simps)
  have "DayFromYear y < DayFromYear (y + 1)"
    unfolding DayFromYear_def using a b c by (rule sum)
  with le show "((y + 1, d), (y, d)) \<in> measure (\<lambda>(y, d). nat (d + 1 - DayFromYear y))"
    by simp
qed

declare yearDown.simps [simp del]
declare yearUp.simps [simp del]

definition YearFromDay :: "int \<Rightarrow> int" where
  "YearFromDay d = yearUp (yearDown (1970 + d div 365) d) d"

definition YearFromTime :: "int \<Rightarrow> int" where
  "YearFromTime t = YearFromDay (Day t)"

definition leapDays :: "int \<Rightarrow> int" where
  "leapDays y = (if DaysInYear y = 366 then 1 else 0)"

definition InLeapYear :: "int \<Rightarrow> int" where
  "InLeapYear t = leapDays (YearFromTime t)"

definition DayWithinYear :: "int \<Rightarrow> int" where
  "DayWithinYear t = Day t - DayFromYear (YearFromTime t)"

definition MonthFromDay :: "int \<Rightarrow> int \<Rightarrow> int" where
  "MonthFromDay d l =
     (if d < 31 then 0
      else if d < 59 + l then 1
      else if d < 90 + l then 2
      else if d < 120 + l then 3
      else if d < 151 + l then 4
      else if d < 181 + l then 5
      else if d < 212 + l then 6
      else if d < 243 + l then 7
      else if d < 273 + l then 8
      else if d < 304 + l then 9
      else if d < 334 + l then 10
      else 11)"

definition MonthFromTime :: "int \<Rightarrow> int" where
  "MonthFromTime t = MonthFromDay (DayWithinYear t) (InLeapYear t)"

text \<open>The number of days of the year before month \<open>m\<close> (0 is January) starts.\<close>

definition daysBeforeMonth :: "int \<Rightarrow> int \<Rightarrow> int" where
  "daysBeforeMonth m l =
     (if m = 0 then 0
      else if m = 1 then 31
      else if m = 2 then 59 + l
      else if m = 3 then 90 + l
      else if m = 4 then 120 + l
      else if m = 5 then 151 + l
      else if m = 6 then 181 + l
      else if m = 7 then 212 + l
      else if m = 8 then 243 + l
      else if m = 9 then 273 + l
      else if m = 10 then 304 + l
      else 334 + l)"

text \<open>The length of month \<open>m\<close> in a year with \<open>l\<close> leap days.\<close>

definition daysInMonth :: "int \<Rightarrow> int \<Rightarrow> int" where
  "daysInMonth m l =
     (if m = 1 then 28 + l
      else if m = 3 \<or> m = 5 \<or> m = 8 \<or> m = 10 then 30
      else 31)"

definition DateFromTime :: "int \<Rightarrow> int" where
  "DateFromTime t = DayWithinYear t - daysBeforeMonth (MonthFromTime t) (InLeapYear t) + 1"

definition WeekDay :: "int \<Rightarrow> int" where
  "WeekDay t = (Day t + 4) mod 7"

definition MakeDay :: "int \<Rightarrow> int \<Rightarrow> int \<Rightarrow> int" where
  "MakeDay year month date =
     (let ym = year + month div 12; mn = month mod 12
      in DayFromYear ym + daysBeforeMonth mn (leapDays ym) + date - 1)"

definition MakeDate :: "int \<Rightarrow> int \<Rightarrow> int" where
  "MakeDate day time = day * msPerDay + time"

definition getDay :: "int \<Rightarrow> int" where
  "getDay t = WeekDay t"

definition getDate :: "int \<Rightarrow> int" where
  "getDate t = DateFromTime t"

definition getMonth :: "int \<Rightarrow> int" where
  "getMonth t = MonthFromTime t"

definition getFullYear :: "int \<Rightarrow> int" where
  "getFullYear t = YearFromTime t"

definition setDate :: "int \<Rightarrow> int \<Rightarrow> int" where
  "setDate t dt = MakeDate (MakeDay (YearFromTime t) (MonthFromTime t) dt) (TimeWithinDay t)"

definition setMonth :: "int \<Rightarrow> int \<Rightarrow> int" where
  "setMonth t m = MakeDate (MakeDay (YearFromTime t) m (DateFromTime t)) (TimeWithinDay t)"

definition setFullYear :: "int \<Rightarrow> int \<Rightarrow> int" where
  "setFullYear t y = MakeDate (MakeDay y (MonthFromTime t) (DateFromTime t)) (TimeWithinDay t)"

section \<open>Date resolution of parseDateTimeString\<close>

text \<open>\<^verbatim>\<open>v || 7\<close> for a number \<open>v\<close>.\<close>

definition orSeven :: "int \<Rightarrow> int" where
  "orSeven v = (if v = 0 then 7 else v)"

text \<open>\<^verbatim>\<open>xs.findIndex(p)\<close>: the first index whose element satisfies \<open>p\<close>, or -1.\<close>

fun findIndex :: "('a \<Rightarrow> bool) \<Rightarrow> 'a list \<Rightarrow> int" where
  "findIndex p [] = - 1"
| "findIndex p (x # xs) =
     (if p x then 0 else (let i = findIndex p xs in if i = - 1 then - 1 else i + 1))"

definition monthNames :: "string list" where
  "monthNames = [''january'', ''february'', ''march'', ''april'', ''may'', ''june'', ''july'',
                 ''august'', ''september'', ''october'', ''november'', ''december'']"

definition shortMonthNames :: "string list" where
  "shortMonthNames = [''jan'', ''feb'', ''mar'', ''apr'', ''may'', ''jun'', ''jul'', ''aug'',
                      ''sep'', ''oct'', ''nov'', ''dec'']"

text \<open>\<^verbatim>\<open>/in\s+(\d+)\s+days?/\<close>\<close>

definition inDaysRx :: rx where
  "inDaysRx =
     Seq (Lit ''in'') (Seq (Rep Space 1 None) (Seq (Grp 1 (Rep Digit 1 None))
       (Seq (Rep Space 1 None) (Seq (Lit ''day'') (Opt (Lit ''s''))))))"

text \<open>\<^verbatim>\<open>/(\w+)\s+(\d+)(?:st|nd|rd|th)?/i\<close>\<close>

definition monthDayRx :: rx where
  "monthDayRx =
     Seq (Grp 1 (Rep WordCh 1 None)) (Seq (Rep Space 1 None) (Seq (Grp 2 (Rep Digit 1 None))
       (Opt (Alt (Lit ''st'') (Alt (Lit ''nd'') (Alt (Lit ''rd'') (Lit ''th'')))))))"

text \<open>\<^verbatim>\<open>/(\d{1,2})\/(\d{1,2})/\<close>\<close>

definition slashDateRx :: rx where
  "slashDateRx = Seq (Grp 1 (Rep Digit 1 (Some 2))) (Seq (Lit ''/'') (Grp 2 (Rep Digit 1 (Some 2))))"

text \<open>
  The month a word names: a month name that starts with the word, else the month whose
  short name is the first three characters of the word, else -1.
\<close>

definition monthIndexOf :: "string \<Rightarrow> int" where
  "monthIndexOf monthStr =
     (let monthIndex = findIndex (\<lambda>m. startsWith m monthStr) monthNames
      in if monthIndex = - 1
         then findIndex (\<lambda>m. m = take 3 monthStr) shortMonthNames
         else monthIndex)"

text \<open>
  The statements both absolute formats end with:
  \<^verbatim>\<open>if (targetDate < now) { targetDate.setFullYear(targetDate.getFullYear() + 1); }\<close>
\<close>

definition assumeNextYear :: "int \<Rightarrow> int \<Rightarrow> int" where
  "assumeNextYear now targetDate =
     (if targetDate < now then setFullYear targetDate (getFullYear targetDate + 1)
      else targetDate)"

text \<open>
  The first half of parseDateTimeString. \<open>now\<close> is the instant both \<^verbatim>\<open>new Date()\<close>
  calls of the function read; the result is the final value of \<^verbatim>\<open>targetDate\<close>.
\<close>

definition parseDate :: "int \<Rightarrow> string \<Rightarrow> int" where
  "parseDate now dateTimeStr =
     (let targetDate = now; lowerDateTime = toLowerCase dateTimeStr in
      if includesStr lowerDateTime ''tomorrow'' then
        setDate targetDate (getDate targetDate + 1)
      else if includesStr lowerDateTime ''today'' then
        targetDate
      else if includesStr lowerDateTime ''next week'' then
        setDate targetDate (getDate targetDate + 7)
      else if includesStr lowerDateTime ''next monday'' then
        setDate targetDate (getDate targetDate + orSeven ((1 + 7 - getDay targetDate) mod 7))
      else if includesStr lowerDateTime ''next tuesday'' then
        setDate targetDate (getDate targetDate + orSeven ((2 + 7 - getDay targetDate) mod 7))
      else if includesStr lowerDateTime ''next wednesday'' then
        setDate targetDate (getDate targetDate + orSeven ((3 + 7 - getDay targetDate) mod 7))
      else if includesStr lowerDateTime ''next thursday'' then
        setDate targetDate (getDate targetDate + orSeven ((4 + 7 - getDay targetDate) mod 7))
      else if includesStr lowerDateTime ''next friday'' then
        setDate targetDate (getDate targetDate + orSeven ((5 + 7 - getDay targetDate) mod 7))
      else if includesStr lowerDateTime ''next saturday'' then
        setDate targetDate (getDate targetDate + orSeven ((6 + 7 - getDay targetDate) mod 7))
      else if includesStr lowerDateTime ''next sunday'' then
        setDate targetDate (getDate targetDate + orSeven ((0 + 7 - getDay targetDate) mod 7))
      else if includesStr lowerDateTime ''monday'' then
        setDate targetDate (getDate targetDate + orSeven ((1 - getDay targetDate + 7) mod 7))
      else if includesStr lowerDateTime ''tuesday'' then
        setDate targetDate (getDate targetDate + orSeven ((2 - getDay targetDate + 7) mod 7))
      else if includesStr lowerDateTime ''wednesday'' then
        setDate targetDate (getDate targetDate + orSeven ((3 - getDay targetDate + 7) mod 7))
      else if includesStr lowerDateTime ''thursday'' then
        setDate targetDate (getDate targetDate + orSeven ((4 - getDay targetDate + 7) mod 7))
      else if includesStr lowerDateTime ''friday'' then
        setDate targetDate (getDate targetDate + orSeven ((5 - getDay targetDate + 7) mod 7))
      else if includesStr lowerDateTime ''saturday'' then
        setDate targetDate (getDate targetDate + orSeven ((6 - getDay targetDate + 7) mod 7))
      else if includesStr lowerDateTime ''sunday'' then
        setDate targetDate (getDate targetDate + orSeven ((0 - getDay targetDate + 7) mod 7))
      else
        (case rxSearch False inDaysRx lowerDateTime of
           Some (m0, cs) \<Rightarrow>
             setDate targetDate (getDate targetDate + int (parseInt (grpText cs 1)))
         | None \<Rightarrow>
             (case rxSearch True monthDayRx dateTimeStr of
                Some (m0, cs) \<Rightarrow>
                  (let monthStr = toLowerCase (grpText cs 1);
                       day = int (parseInt (grpText cs 2));
                       monthIndex = monthIndexOf monthStr
                   in if monthIndex \<noteq> - 1
                      then assumeNextYear now (setDate (setMonth targetDate monthIndex) day)
                      else targetDate)
              | None \<Rightarrow>
                  (case rxSearch False slashDateRx dateTimeStr of
                     Some (m0, cs) \<Rightarrow>
                       assumeNextYear now
                         (setDate (setMonth targetDate (int (parseInt (grpText cs 1)) - 1))
                                  (int (parseInt (grpText cs 2))))
                   | None \<Rightarrow> targetDate))))"

text \<open>
  The words the date resolution looks for before it tries a number of days or a month and
  day, in the order of the code, and the names of the seven days.
\<close>

definition relativeDateWords :: "string list" where
  "relativeDateWords =
     [''tomorrow'', ''today'', ''next week'', ''next monday'', ''next tuesday'', ''next wednesday'',
      ''next thursday'', ''next friday'', ''next saturday'', ''next sunday'', ''monday'', ''tuesday'',
      ''wednesday'', ''thursday'', ''friday'', ''saturday'', ''sunday'']"

definition weekdayNames :: "string list" where
  "weekdayNames =
     [''sunday'', ''monday'', ''tuesday'', ''wednesday'', ''thursday'', ''friday'', ''saturday'']"

record parsed =
  targetDate :: int
  targetTime :: "targetTime option"

definition parseDateTimeString :: "int \<Rightarrow> string \<Rightarrow> parsed" where
  "parseDateTimeString now dateTimeStr =
     \<lparr>targetDate = parseDate now dateTimeStr, targetTime = parseTime dateTimeStr\<rparr>"

section \<open>End time of create_calendar_event\<close>

text \<open>
  The hour, minute and period the tool puts into the text of the end time, and that text.
\<close>

definition endTime :: "targetTime \<Rightarrow> nat \<times> nat \<times> string" where
  "endTime tt =
     (let endHour = hour tt; endPeriod = period tt in
      if endHour = 12 \<and> period tt = ''AM'' then (1, minute tt, ''AM'')
      else if endHour = 11 \<and> period tt = ''AM'' then (12, minute tt, ''PM'')
      else if endHour = 12 \<and> period tt = ''PM'' then (1, minute tt, ''PM'')
      else if endHour = 11 \<and> period tt = ''PM'' then (12, minute tt, ''AM'')
      else if period tt = ''AM'' then (endHour + 1, minute tt, endPeriod)
      else (endHour + 1, minute tt, endPeriod))"

definition endTimeString :: "targetTime \<Rightarrow> string" where
  "endTimeString tt =
     (case endTime tt of
        (endHour, endMinute, endPeriod) \<Rightarrow>
          showNat endHour @ '':'' @ padStart2 (showNat endMinute) @ '' '' @ endPeriod)"

text \<open>
  Minutes since midnight of a twelve-hour clock reading, to say what ``one hour later''
  means.
\<close>

definition minutesOfDay :: "nat \<Rightarrow> nat \<Rightarrow> string \<Rightarrow> nat" where
  "minutesOfDay h m p = ((h mod 12) + (if p = ''PM'' then 12 else 0)) * 60 + m"

section \<open>Values and object literals\<close>

text \<open>
  The values a variable of open_new_tab can hold: \<^verbatim>\<open>undefined\<close>, a string, or what a
  property not written in an object literal evaluates to when the name is one of
  \<^verbatim>\<open>Object.prototype\<close>: reading \<^verbatim>\<open>GOOGLE_SERVICES[key]\<close> follows the prototype chain,
  so that \<^verbatim>\<open>GOOGLE_SERVICES['constructor']\<close> is the function \<^verbatim>\<open>Object\<close>.
\<close>

datatype jsval = Undefined | Str string | Inherited string

definition objectPrototypeKeys :: "string list" where
  "objectPrototypeKeys =
     [''constructor'', ''__defineGetter__'', ''__defineSetter__'', ''hasOwnProperty'',
      ''__lookupGetter__'', ''__lookupSetter__'', ''isPrototypeOf'', ''propertyIsEnumerable'',
      ''toString'', ''valueOf'', ''__proto__'', ''toLocaleString'']"

text \<open>\<^verbatim>\<open>obj[key]\<close> for an object literal with string values.\<close>

definition objGet :: "(string \<times> string) list \<Rightarrow> string \<Rightarrow> jsval" where
  "objGet obj key =
     (case map_of obj key of
        Some v \<Rightarrow> Str v
      | None \<Rightarrow> if key \<in> set objectPrototypeKeys then Inherited key else Undefined)"

fun truthyVal :: "jsval \<Rightarrow> bool" where
  "truthyVal Undefined = False"
| "truthyVal (Str s) = (s \<noteq> [])"
| "truthyVal (Inherited k) = True"

text \<open>The text of a value inside a template literal.\<close>

fun jsString :: "jsval \<Rightarrow> string" where
  "jsString Undefined = ''undefined''"
| "jsString (Str s) = s"
| "jsString (Inherited k) =
     (if k = ''__proto__'' then ''[object Object]''
      else ''function '' @ (if k = ''constructor'' then ''Object'' else k) @ ''() { [native code] }'')"

fun optVal :: "string option \<Rightarrow> jsval" where
  "optVal None = Undefined"
| "optVal (Some s) = Str s"

fun strOf :: "string option \<Rightarrow> string" where
  "strOf None = []"
| "strOf (Some s) = s"

definition GOOGLE_SERVICES :: "(string \<times> string) list" where
  "GOOGLE_SERVICES =
     [(''sheets'', ''https://sheets.google.com''),
      (''docs'', ''https://docs.google.com''),
      (''slides'', ''https://slides.google.com''),
      (''forms'', ''https://forms.google.com''),
      (''drive'', ''https://drive.google.com''),
      (''calendar'', ''https://calendar.google.com''),
      (''gmail'', ''https://mail.google.com''),
      (''mail'', ''https://mail.google.com''),
      (''maps'', ''https://maps.google.com''),
      (''meet'', ''https://meet.google.com''),
      (''keep'', ''https://keep.google.com''),
      (''photos'', ''https://photos.google.com''),
      (''contacts'', ''https://contacts.google.com''),
      (''tasks'', ''https://tasks.google.com''),
      (''translate'', ''https://translate.google.com''),
      (''news'', ''https://news.google.com''),
      (''youtube'', ''https://youtube.com''),
      (''scholar'', ''https://scholar.google.com''),
      (''books'', ''https://books.google.com''),
      (''earth'', ''https://earth.google.com'')]"

definition CREATE_NEW_URLS :: "(string \<times> string) list" where
  "CREATE_NEW_URLS =
     [(''sheets'', ''https://sheets.google.com/create''),
      (''docs'', ''https://docs.google.com/create''),
      (''slides'', ''https://slides.google.com/create''),
      (''forms'', ''https://forms.google.com/create'')]"

text \<open>\<^verbatim>\<open>s.replace(pat, rep)\<close> with a string pattern: the first occurrence only.\<close>

fun replaceFirst :: "string \<Rightarrow> string \<Rightarrow> string \<Rightarrow> string" where
  "replaceFirst pat rep [] = (if pat = [] then rep else [])"
| "replaceFirst pat rep (c # cs) =
     (if startsWith (c # cs) pat then rep @ drop (length pat) (c # cs)
      else c # replaceFirst pat rep cs)"

text \<open>\<^verbatim>\<open>s.charAt(0).toUpperCase() + s.slice(1)\<close>\<close>

definition capitalize :: "string \<Rightarrow> string" where
  "capitalize s = toUpperCase (take 1 s) @ drop 1 s"

text \<open>
  \<^verbatim>\<open>encodeURIComponent\<close>: letters, digits and \<^verbatim>\<open>-_.!~*'()\<close> stay, any other character
  becomes a percent sign and the two hexadecimal digits of its code.
\<close>

definition hexChars :: string where
  "hexChars = ''0123456789ABCDEF''"

definition unreservedChars :: string where
  "unreservedChars = upperLetters @ lowerLetters @ digitChars @ [CHR ''-'', CHR ''_'', CHR ''.'',
     CHR ''!'', CHR ''~'', CHR ''*'', CHR 0x27, CHR ''('', CHR '')'']"

definition encodeChar :: "char \<Rightarrow> string" where
  "encodeChar c =
     (if c \<in> set unreservedChars then [c]
      else [CHR ''%'', hexChars ! ((of_char c :: nat) div 16), hexChars ! ((of_char c :: nat) mod 16)])"

definition encodeURIComponent :: "string \<Rightarrow> string" where
  "encodeURIComponent s = concat (map encodeChar s)"

section \<open>The table of pending requests\<close>

text \<open>
  An entry of \<^verbatim>\<open>pendingTabRequests\<close>. A field the object does not have is \<open>None\<close>,
  \<open>Undefined\<close> or \<open>False\<close>.
\<close>

record request =
  url :: jsval
  serviceName :: jsval
  action :: "string option"
  status :: string
  dataUrl :: "string option"
  success :: bool
  filename :: "string option"
  downloadId :: "nat option"
  error :: "string option"

type_synonym requests = "string \<Rightarrow> request option"

definition tabRequest :: "jsval \<Rightarrow> jsval \<Rightarrow> request" where
  "tabRequest finalUrl name =
     \<lparr>url = finalUrl, serviceName = name, action = None, status = ''pending'', dataUrl = None,
      success = False, filename = None, downloadId = None, error = None\<rparr>"

definition screenshotRequest :: request where
  "screenshotRequest =
     \<lparr>url = Undefined, serviceName = Undefined, action = Some ''screenshot'', status = ''pending'',
      dataUrl = None, success = False, filename = None, downloadId = None, error = None\<rparr>"

section \<open>The tools that enqueue a request\<close>

text \<open>
  A tool reads the clock (\<open>clock\<close> is the value of \<^verbatim>\<open>Date.now()\<close>), stores its request
  and waits. While it waits the client and other calls change the table: \<open>during\<close> is
  what they do to it. A tool returns \<open>Inr\<close> of its text, or \<open>Inl\<close> of the message of
  the error it throws, and the table it leaves.
\<close>

record tabArgs =
  service :: "string option"
  tabUrl :: "string option"
  search :: "string option"

definition missingTargetError :: string where
  "missingTargetError = ''Please provide either a service name, URL, or search query''"

text \<open>
  The first part of open_new_tab, up to the check of \<^verbatim>\<open>finalUrl\<close>: the error thrown,
  or the values of \<^verbatim>\<open>finalUrl\<close> and \<^verbatim>\<open>serviceName\<close>.
\<close>

definition openTabTarget :: "tabArgs \<Rightarrow> string + jsval \<times> jsval" where
  "openTabTarget args =
     (let target0 = (optVal (tabUrl args), optVal (service args));
          target1 =
            (if truthy (search args) \<and> \<not> truthy (tabUrl args) \<and> \<not> truthy (service args)
             then (Str (''https://www.google.com/search?q='' @ encodeURIComponent (strOf (search args))),
                   Str (''Google Search: '' @ strOf (search args)))
             else target0);
          target2 =
            (if truthy (service args) \<and> \<not> truthy (tabUrl args) \<and> \<not> truthy (search args)
             then
               (let lowerService = toLowerCase (strOf (service args)) in
                if startsWith lowerService ''new '' then
                  (let docType = replaceFirst ''new '' [] lowerService in
                   if truthyVal (objGet CREATE_NEW_URLS docType)
                   then (objGet CREATE_NEW_URLS docType, Str (''New '' @ capitalize docType))
                   else target1)
                else if truthyVal (objGet GOOGLE_SERVICES lowerService) then
                  (objGet GOOGLE_SERVICES lowerService, Str (capitalize lowerService))
                else if lowerService = ''google'' then
                  (Str ''https://www.google.com'', Str ''Google'')
                else target1)
             else target1)
      in if \<not> truthyVal (fst target2) then Inl missingTargetError else Inr target2)"

definition isCompleted :: "request option \<Rightarrow> bool" where
  "isCompleted r = (case r of None \<Rightarrow> False | Some request \<Rightarrow> status request = ''completed'')"

text \<open>
  The two statements with which open_new_tab and navigate_browser store their request:
  the identifier is the text of the clock, and the entry is set under it.
\<close>

definition enqueueTab :: "nat \<Rightarrow> jsval \<Rightarrow> jsval \<Rightarrow> requests \<Rightarrow> string \<times> requests" where
  "enqueueTab clock finalUrl name pendingTabRequests =
     (let requestId = showNat clock
      in (requestId, pendingTabRequests(requestId \<mapsto> tabRequest finalUrl name)))"

text \<open>The end of open_new_tab, after the wait.\<close>

definition openTabResult ::
  "string \<Rightarrow> jsval \<Rightarrow> jsval \<Rightarrow> requests \<Rightarrow> (string + string) \<times> requests" where
  "openTabResult requestId finalUrl name pendingTabRequests =
     (let label = jsString (if truthyVal name then name else finalUrl)
      in if isCompleted (pendingTabRequests requestId)
         then (Inr (''Task completed successfully! I have opened '' @ label @ '' in a new tab for you.''),
               pendingTabRequests(requestId := None))
         else (Inr (''Task completed! I have requested to open '' @ label @ '' in a new tab.''),
               pendingTabRequests))"

definition open_new_tab ::
  "nat \<Rightarrow> (requests \<Rightarrow> requests) \<Rightarrow> tabArgs \<Rightarrow> requests \<Rightarrow> (string + string) \<times> requests" where
  "open_new_tab clock during args pendingTabRequests =
     (case openTabTarget args of
        Inl e \<Rightarrow> (Inl e, pendingTabRequests)
      | Inr (finalUrl, name) \<Rightarrow>
          (case enqueueTab clock finalUrl name pendingTabRequests of
             (requestId, enqueued) \<Rightarrow> openTabResult requestId finalUrl name (during enqueued)))"

text \<open>The end of navigate_browser, after the wait.\<close>

definition navigateResult :: "string \<Rightarrow> string \<Rightarrow> requests \<Rightarrow> (string + string) \<times> requests" where
  "navigateResult requestId target pendingTabRequests =
     (if isCompleted (pendingTabRequests requestId)
      then (Inr (''Successfully opened '' @ target @ '' in a new tab in your current browser window.''),
            pendingTabRequests(requestId := None))
      else (Inr (''Requested to open '' @ target @ '' in a new tab in your current browser window.''),
            pendingTabRequests))"

definition navigate_browser ::
  "nat \<Rightarrow> (requests \<Rightarrow> requests) \<Rightarrow> string \<Rightarrow> requests \<Rightarrow> (string + string) \<times> requests" where
  "navigate_browser clock during target pendingTabRequests =
     (case enqueueTab clock (Str target) (Str target) pendingTabRequests of
        (requestId, enqueued) \<Rightarrow> navigateResult requestId target (during enqueued))"

definition enqueueScreenshot :: "nat \<Rightarrow> requests \<Rightarrow> string \<times> requests" where
  "enqueueScreenshot clock pendingTabRequests =
     (let requestId = showNat clock
      in (requestId, pendingTabRequests(requestId \<mapsto> screenshotRequest)))"

text \<open>
  The loop of take_screenshot: \<open>left\<close> attempts remain, and \<open>during k\<close> is what happens
  to the table in the wait when \<open>k\<close> attempts remain. The result is what the body of
  \<^verbatim>\<open>try\<close> returns or throws.
\<close>

fun screenshotPoll ::
  "(nat \<Rightarrow> requests \<Rightarrow> requests) \<Rightarrow> string \<Rightarrow> nat \<Rightarrow> requests \<Rightarrow> (string + string) \<times> requests" where
  "screenshotPoll during requestId 0 tbl =
     (Inl ''Screenshot request timed out - make sure the Chrome extension is active'',
      tbl(requestId := None))"
| "screenshotPoll during requestId (Suc left) tbl =
     (let after = during (Suc left) tbl in
      case after requestId of
        None \<Rightarrow> screenshotPoll during requestId left after
      | Some request \<Rightarrow>
          if status request = ''completed'' then
            (if truthy (error request) then Inl (strOf (error request))
             else if success request \<and> truthy (filename request) then
               Inr (''Screenshot taken successfully and saved to Downloads folder as '' @
                    [CHR 0x22] @ strOf (filename request) @ [CHR 0x22])
             else Inr ''Screenshot taken successfully using Chrome Extension API'',
             after(requestId := None))
          else screenshotPoll during requestId left after)"

definition take_screenshot ::
  "nat \<Rightarrow> (nat \<Rightarrow> requests \<Rightarrow> requests) \<Rightarrow> requests \<Rightarrow> (string + string) \<times> requests" where
  "take_screenshot clock during pendingTabRequests =
     (case enqueueScreenshot clock pendingTabRequests of
        (requestId, enqueued) \<Rightarrow>
          (case screenshotPoll during requestId 10 enqueued of
             (Inl message, tbl) \<Rightarrow> (Inl (''Failed to take screenshot: '' @ message), tbl)
           | (Inr text, tbl) \<Rightarrow> (Inr text, tbl)))"

section \<open>Completing a request\<close>

text \<open>
  The fields \<^verbatim>\<open>POST /tab-requests/:id/complete\<close> reads from the body of the request,
  which the JSON middleware has parsed into an object (an empty one for a request with no
  body). \<open>bodySuccess\<close> is the truthiness of its field \<^verbatim>\<open>success\<close>.
\<close>

record completion =
  bodyDataUrl :: "string option"
  bodyError :: "string option"
  bodySuccess :: bool
  bodyFilename :: "string option"
  bodyDownloadId :: "nat option"

datatype response = Ok200 | NotFound404

definition complete :: "string \<Rightarrow> completion \<Rightarrow> requests \<Rightarrow> response \<times> requests" where
  "complete ident body pendingTabRequests =
     (case pendingTabRequests ident of
        Some request \<Rightarrow>
          (let r1 = request\<lparr>status := ''completed''\<rparr>;
               r2 = (if truthy (bodyDataUrl body) then r1\<lparr>dataUrl := bodyDataUrl body\<rparr> else r1);
               r3 = (if bodySuccess body \<and> truthy (bodyFilename body)
                     then r2\<lparr>success := True, filename := bodyFilename body,
                             downloadId := bodyDownloadId body\<rparr>
                     else r2);
               r4 = (if truthy (bodyError body) then r3\<lparr>error := bodyError body\<rparr> else r3)
           in (Ok200, pendingTabRequests(ident \<mapsto> r4)))
      | None \<Rightarrow> (NotFound404, pendingTabRequests))"

text \<open>A sequence of calls of the endpoint, one after the other.\<close>

fun completeAll :: "(string \<times> completion) list \<Rightarrow> requests \<Rightarrow> requests" where
  "completeAll [] tbl = tbl"
| "completeAll ((ident, body) # calls) tbl = completeAll calls (snd (complete ident body tbl))"

section \<open>The wrapper of the agent call\<close>

record agentStep =
  tool :: string
  toolInput :: string
  observation :: "string option"

text \<open>
  The result of a call: \<open>finalOutput\<close> is its field \<^verbatim>\<open>output\<close>.
\<close>

record agentResult =
  finalOutput :: "string option"
  intermediateSteps :: "agentStep list option"

text \<open>The predicate of the \<^verbatim>\<open>filter\<close> call.\<close>

definition successfulStep :: "agentStep \<Rightarrow> bool" where
  "successfulStep step =
     (truthy (observation step) \<and>
      (includesStr (strOf (observation step)) ''Task completed successfully'' \<or>
       includesStr (strOf (observation step)) ''Successfully opened'' \<or>
       includesStr (strOf (observation step)) ''Successfully created'' \<or>
       includesStr (strOf (observation step)) ''Successfully sent''))"

text \<open>\<^verbatim>\<open>xs.indexOf(x)\<close> and \<^verbatim>\<open>xs.slice(0, n)\<close>.\<close>

definition indexOf :: "'a list \<Rightarrow> 'a \<Rightarrow> int" where
  "indexOf xs x = findIndex (\<lambda>y. y = x) xs"

definition slice0 :: "'a list \<Rightarrow> int \<Rightarrow> 'a list" where
  "slice0 xs n = (if n < 0 then take (length xs - nat (- n)) xs else take (nat n) xs)"

text \<open>
  \<open>agentCall\<close> is the function the wrapper installs as \<^verbatim>\<open>agent.call\<close>, applied to the
  result of the original call.
\<close>

definition agentCall :: "agentResult \<Rightarrow> agentResult" where
  "agentCall result =
     (let result1 =
            (case intermediateSteps result of
               None \<Rightarrow> result
             | Some steps \<Rightarrow>
                 (if length steps > 0 then
                    (case filter successfulStep steps of
                       [] \<Rightarrow> result
                     | firstSuccess # others \<Rightarrow>
                         result\<lparr>finalOutput := observation firstSuccess,
                                intermediateSteps :=
                                  Some (slice0 steps (indexOf steps firstSuccess + 1))\<rparr>)
                  else result));
          result2 =
            (case intermediateSteps result1 of
               None \<Rightarrow> result1
             | Some steps \<Rightarrow>
                 (if truthy (finalOutput result1) \<and>
                     includesStr (strOf (finalOutput result1)) ''Agent stopped due to max iterations'' \<and>
                     length steps > 0
                  then (let lastStep = last steps in
                        if truthy (observation lastStep) \<and>
                           includesStr (strOf (observation lastStep)) ''Task completed''
                        then result1\<lparr>finalOutput := observation lastStep\<rparr>
                        else result1)
                  else result1))
      in result2)"

section \<open>Calendar arithmetic\<close>

lemma div_step:
  fixes a k :: int
  assumes k: "0 < k"
  shows "(a + 1) div k = a div k + (if (a + 1) mod k = 0 then 1 else 0)"
proof -
  have r: "0 \<le> a mod k" "a mod k < k" using k by simp_all
  have eq: "a + 1 = (a div k) * k + (a mod k + 1)" by simp
  show ?thesis
  proof (cases "a mod k + 1 = k")
    case True
    then have "a + 1 = (a div k + 1) * k" using eq by (simp add: algebra_simps)
    then have "(a + 1) div k = a div k + 1" "(a + 1) mod k = 0"
      using k by simp_all
    then show ?thesis by simp
  next
    case False
    with r have small: "0 \<le> a mod k + 1" "a mod k + 1 < k" by simp_all
    have kn: "k \<noteq> 0" using k by simp
    have "(a div k * k + (a mod k + 1)) div k = a div k + (a mod k + 1) div k"
      using kn by (rule div_mult_self3)
    then have d: "(a + 1) div k = a div k + (a mod k + 1) div k"
      by (simp only: eq [symmetric])
    have m: "(a + 1) mod k = (a mod k + 1) mod k"
      by (subst eq) (simp only: mod_mult_self3)
    from small have "(a mod k + 1) div k = 0" "(a mod k + 1) mod k = a mod k + 1"
      by simp_all
    with d m r show ?thesis by simp
  qed
qed

lemma mod_shift:
  fixes y :: int
  shows "(y + 1 - 1969) mod 4 = y mod 4" "(y + 1 - 1901) mod 100 = y mod 100"
        "(y + 1 - 1601) mod 400 = y mod 400"
proof -
  have "(y + 1 - 1969) mod 4 = (y + (- 492) * 4) mod 4" by simp
  also have "\<dots> = y mod 4" by (simp only: mod_mult_self1)
  finally show "(y + 1 - 1969) mod 4 = y mod 4" .
  have "(y + 1 - 1901) mod 100 = (y + (- 19) * 100) mod 100" by simp
  also have "\<dots> = y mod 100" by (simp only: mod_mult_self1)
  finally show "(y + 1 - 1901) mod 100 = y mod 100" .
  have "(y + 1 - 1601) mod 400 = (y + (- 4) * 400) mod 400" by simp
  also have "\<dots> = y mod 400" by (simp only: mod_mult_self1)
  finally show "(y + 1 - 1601) mod 400 = y mod 400" .
qed

lemma mod_400_100_4:
  fixes y :: int
  shows "y mod 400 = 0 \<Longrightarrow> y mod 100 = 0" "y mod 100 = 0 \<Longrightarrow> y mod 4 = 0"
proof -
  assume "y mod 400 = 0"
  then have "400 dvd y" by (simp add: dvd_eq_mod_eq_0)
  moreover have "(100::int) dvd 400" by simp
  ultimately have "100 dvd y" by (rule dvd_trans [rotated])
  then show "y mod 100 = 0" by (simp add: dvd_eq_mod_eq_0)
next
  assume "y mod 100 = 0"
  then have "100 dvd y" by (simp add: dvd_eq_mod_eq_0)
  moreover have "(4::int) dvd 100" by simp
  ultimately have "4 dvd y" by (rule dvd_trans [rotated])
  then show "y mod 4 = 0" by (simp add: dvd_eq_mod_eq_0)
qed

lemma DayFromYear_step: "DayFromYear (y + 1) = DayFromYear y + DaysInYear y"
proof -
  have a: "(y + 1 - 1969) div 4 = (y - 1969) div 4 + (if y mod 4 = 0 then 1 else 0)"
    using div_step [of 4 "y - 1969"] mod_shift(1) [of y] by (simp add: algebra_simps)
  have b: "(y + 1 - 1901) div 100 = (y - 1901) div 100 + (if y mod 100 = 0 then 1 else 0)"
    using div_step [of 100 "y - 1901"] mod_shift(2) [of y] by (simp add: algebra_simps)
  have c: "(y + 1 - 1601) div 400 = (y - 1601) div 400 + (if y mod 400 = 0 then 1 else 0)"
    using div_step [of 400 "y - 1601"] mod_shift(3) [of y] by (simp add: algebra_simps)
  show ?thesis
    unfolding DayFromYear_def DaysInYear_def a b c
    using mod_400_100_4 [of y] by (auto simp: algebra_simps)
qed


lemma MonthFromDay_range: "0 \<le> MonthFromDay d l \<and> MonthFromDay d l < 12"
  by (simp add: MonthFromDay_def)

lemma MakeDay_in_year:
  "0 \<le> m \<Longrightarrow> m < 12 \<Longrightarrow> MakeDay y m dt = DayFromYear y + daysBeforeMonth m (leapDays y) + dt - 1"
  by (simp add: MakeDay_def Let_def)

lemma leapDays_cases: "leapDays y = 0 \<or> leapDays y = 1"
  by (simp add: leapDays_def)

lemma DaysInYear_leapDays: "DaysInYear y = 365 + leapDays y"
  by (simp add: leapDays_def DaysInYear_def)

lemma DayFromYear_next: "DayFromYear (y + 1) = DayFromYear y + 365 + leapDays y"
  by (simp add: DayFromYear_step DaysInYear_leapDays)

lemma DayFromYear_less: "y < y' \<Longrightarrow> DayFromYear y < DayFromYear y'"
proof (induction y' rule: int_gr_induct)
  case base
  show ?case using leapDays_cases [of y] by (auto simp: DayFromYear_next)
next
  case (step i)
  then show ?case using leapDays_cases [of i] by (auto simp: DayFromYear_next)
qed

lemma yearDown_le: "DayFromYear (yearDown y d) \<le> d"
proof (induction y d rule: yearDown.induct)
  case (1 y d)
  show ?case
  proof (cases "d < DayFromYear y")
    case True
    with 1 show ?thesis by (subst yearDown.simps) simp
  next
    case False
    then show ?thesis by (subst yearDown.simps) simp
  qed
qed

lemma yearUp_bounds:
  "DayFromYear y \<le> d \<Longrightarrow>
   DayFromYear (yearUp y d) \<le> d \<and> d < DayFromYear (yearUp y d + 1)"
proof (induction y d rule: yearUp.induct)
  case (1 y d)
  show ?case
  proof (cases "DayFromYear (y + 1) \<le> d")
    case True
    with 1 show ?thesis by (subst (1 2) yearUp.simps) simp
  next
    case False
    with 1 show ?thesis by (subst (1 2) yearUp.simps) simp
  qed
qed

lemma YearFromDay_bounds:
  "DayFromYear (YearFromDay d) \<le> d \<and> d < DayFromYear (YearFromDay d + 1)"
  unfolding YearFromDay_def by (rule yearUp_bounds) (rule yearDown_le)

lemma YearFromDay_unique:
  assumes "DayFromYear y \<le> d" and "d < DayFromYear (y + 1)"
  shows "YearFromDay d = y"
proof (rule ccontr)
  assume ne: "YearFromDay d \<noteq> y"
  note b = YearFromDay_bounds [of d]
  show False
  proof (cases "YearFromDay d < y")
    case True
    then have "YearFromDay d + 1 \<le> y" by simp
    then have "DayFromYear (YearFromDay d + 1) \<le> DayFromYear y"
      using DayFromYear_less [of "YearFromDay d + 1" y] by (cases "YearFromDay d + 1 = y") auto
    with b assms show False by simp
  next
    case False
    with ne have "y + 1 \<le> YearFromDay d" by simp
    then have "DayFromYear (y + 1) \<le> DayFromYear (YearFromDay d)"
      using DayFromYear_less [of "y + 1" "YearFromDay d"] by (cases "y + 1 = YearFromDay d") auto
    with b assms show False by simp
  qed
qed

lemma month_cases: "0 \<le> (m::int) \<Longrightarrow> m < 12 \<Longrightarrow>
  m = 0 \<or> m = 1 \<or> m = 2 \<or> m = 3 \<or> m = 4 \<or> m = 5 \<or> m = 6 \<or> m = 7 \<or> m = 8 \<or> m = 9 \<or> m = 10 \<or> m = 11"
  by arith

lemma DayWithinYear_range: "0 \<le> DayWithinYear t \<and> DayWithinYear t < 365 + InLeapYear t"
  using YearFromDay_bounds [of "Day t"]
  by (simp add: DayWithinYear_def YearFromTime_def InLeapYear_def DayFromYear_next)

lemma day_decomposition:
  "Day t = DayFromYear (YearFromTime t) + daysBeforeMonth (MonthFromTime t) (InLeapYear t)
           + DateFromTime t - 1"
  by (simp add: DateFromTime_def DayWithinYear_def)

lemma date_in_month:
  assumes l: "l = 0 \<or> l = 1" and d: "0 \<le> d" "d < 365 + l"
  shows "1 \<le> d - daysBeforeMonth (MonthFromDay d l) l + 1 \<and>
         d - daysBeforeMonth (MonthFromDay d l) l + 1 \<le> daysInMonth (MonthFromDay d l) l"
  using l d unfolding MonthFromDay_def daysBeforeMonth_def daysInMonth_def
  by auto

lemma DateFromTime_range:
  "1 \<le> DateFromTime t \<and> DateFromTime t \<le> daysInMonth (MonthFromTime t) (InLeapYear t)"
  unfolding DateFromTime_def MonthFromTime_def
  using date_in_month [of "InLeapYear t" "DayWithinYear t"] DayWithinYear_range [of t]
    leapDays_cases [of "YearFromTime t"]
  by (simp add: InLeapYear_def)

lemma month_of_day:
  assumes l: "l = 0 \<or> l = 1" and m: "0 \<le> m" "m < 12" and dt: "1 \<le> dt" "dt \<le> daysInMonth m l"
  shows "MonthFromDay (daysBeforeMonth m l + dt - 1) l = m \<and>
         0 \<le> daysBeforeMonth m l + dt - 1 \<and> daysBeforeMonth m l + dt - 1 < 365 + l"
  using month_cases [OF m] l dt unfolding MonthFromDay_def daysBeforeMonth_def daysInMonth_def
  by (elim disjE) simp_all

lemma date_composition:
  assumes m: "0 \<le> m" "m < 12" and dt: "1 \<le> dt" "dt \<le> daysInMonth m (leapDays y)"
    and day: "Day t = DayFromYear y + daysBeforeMonth m (leapDays y) + dt - 1"
  shows "YearFromTime t = y \<and> MonthFromTime t = m \<and> DateFromTime t = dt"
proof -
  note md = month_of_day [OF leapDays_cases [of y] m dt]
  have "DayFromYear y \<le> Day t" "Day t < DayFromYear (y + 1)"
    using md day by (simp_all add: DayFromYear_next)
  then have y: "YearFromTime t = y"
    unfolding YearFromTime_def by (rule YearFromDay_unique)
  then have diy: "DayWithinYear t = daysBeforeMonth m (leapDays y) + dt - 1"
    "InLeapYear t = leapDays y"
    using day by (simp_all add: DayWithinYear_def InLeapYear_def)
  then have mo: "MonthFromTime t = m"
    using md by (simp add: MonthFromTime_def)
  with diy have "DateFromTime t = dt"
    by (simp add: DateFromTime_def)
  with y mo show ?thesis by simp
qed


lemma TimeWithinDay_range: "0 \<le> TimeWithinDay t \<and> TimeWithinDay t < msPerDay"
  by (simp add: TimeWithinDay_def msPerDay_def)

lemma Day_MakeDate: "Day (MakeDate d (TimeWithinDay t)) = d"
  using TimeWithinDay_range [of t] by (simp add: Day_def MakeDate_def msPerDay_def)

lemma Day_less_imp_less:
  assumes "Day a < Day b"
  shows "a < b"
proof -
  have "a = Day a * msPerDay + TimeWithinDay a" "b = Day b * msPerDay + TimeWithinDay b"
    by (simp_all add: Day_def TimeWithinDay_def)
  moreover have "(Day a + 1) * msPerDay \<le> Day b * msPerDay"
    using assms by (intro mult_right_mono) (simp_all add: msPerDay_def)
  ultimately show ?thesis
    using TimeWithinDay_range [of a] TimeWithinDay_range [of b] by (simp add: algebra_simps)
qed

lemma daysBeforeMonth_next:
  assumes "0 \<le> m" "m < 11"
  shows "daysBeforeMonth (m + 1) l = daysBeforeMonth m l + daysInMonth m l"
proof -
  from assms have "m = 0 \<or> m = 1 \<or> m = 2 \<or> m = 3 \<or> m = 4 \<or> m = 5 \<or> m = 6 \<or> m = 7 \<or>
      m = 8 \<or> m = 9 \<or> m = 10"
    by arith
  then show ?thesis
    unfolding daysBeforeMonth_def daysInMonth_def by (elim disjE) simp_all
qed

lemma daysInMonth_range: "l = 0 \<or> l = 1 \<Longrightarrow> 28 \<le> daysInMonth m l \<and> daysInMonth m l \<le> 31"
  by (auto simp: daysInMonth_def)

lemma daysBeforeMonth_mono:
  assumes l: "l = 0 \<or> l = 1" and a: "0 \<le> a" and ab: "a \<le> b" and b: "b < 12"
  shows "daysBeforeMonth a l \<le> daysBeforeMonth b l"
  using ab b
proof (induction b rule: int_ge_induct)
  case base
  show ?case by simp
next
  case (step i)
  then have "daysBeforeMonth a l \<le> daysBeforeMonth i l" by simp
  moreover have "daysBeforeMonth (i + 1) l = daysBeforeMonth i l + daysInMonth i l"
    using step a by (intro daysBeforeMonth_next) simp_all
  ultimately show ?case using daysInMonth_range [OF l, of i] by simp
qed

lemma short_month:
  assumes "l = 0 \<or> l = 1" "0 \<le> m" "m < 12" "daysInMonth m l < 31"
  shows "m < 11 \<and> daysInMonth (m + 1) l = 31"
proof -
  from assms have "m = 0 \<or> m = 1 \<or> m = 2 \<or> m = 3 \<or> m = 4 \<or> m = 5 \<or> m = 6 \<or> m = 7 \<or>
      m = 8 \<or> m = 9 \<or> m = 10 \<or> m = 11"
    by (intro month_cases)
  then show ?thesis
    using assms(1,4) unfolding daysInMonth_def by (elim disjE) auto
qed

text \<open>The date after \<open>setMonth\<close>: the day of the month overflows into the next month.\<close>

lemma setMonth_result:
  fixes t m :: int
  assumes m: "0 \<le> m" "m < 12"
  defines "l \<equiv> InLeapYear t" and "D \<equiv> DateFromTime t"
  shows "YearFromTime (setMonth t m) = YearFromTime t \<and>
         InLeapYear (setMonth t m) = l \<and>
         (if D \<le> daysInMonth m l
          then MonthFromTime (setMonth t m) = m \<and> DateFromTime (setMonth t m) = D
          else MonthFromTime (setMonth t m) = m + 1 \<and> DateFromTime (setMonth t m) = D - daysInMonth m l)"
proof -
  let ?Y = "YearFromTime t"
  have l: "l = 0 \<or> l = 1" "l = leapDays ?Y"
    using leapDays_cases [of ?Y] by (simp_all add: l_def InLeapYear_def)
  have D: "1 \<le> D" "D \<le> 31"
    using DateFromTime_range [of t] daysInMonth_range [OF l(1), of "MonthFromTime t"]
    by (simp_all add: D_def l_def)
  have day: "Day (setMonth t m) = DayFromYear ?Y + daysBeforeMonth m l + D - 1"
    using m by (simp add: setMonth_def Day_MakeDate MakeDay_in_year l D_def)
  show ?thesis
  proof (cases "D \<le> daysInMonth m l")
    case True
    with date_composition [of m D ?Y "setMonth t m"] m D day l
    show ?thesis by (simp add: InLeapYear_def)
  next
    case False
    then have sm: "m < 11" "daysInMonth (m + 1) l = 31"
      using short_month [OF l(1) m] D by simp_all
    have "Day (setMonth t m) =
            DayFromYear ?Y + daysBeforeMonth (m + 1) l + (D - daysInMonth m l) - 1"
      using day daysBeforeMonth_next [of m l] m sm by simp
    moreover have "1 \<le> D - daysInMonth m l" "D - daysInMonth m l \<le> daysInMonth (m + 1) l"
      using False D sm daysInMonth_range [OF l(1), of m] by simp_all
    ultimately show ?thesis
      using date_composition [of "m + 1" "D - daysInMonth m l" ?Y "setMonth t m"] m sm l False
      by (simp add: InLeapYear_def)
  qed
qed

lemma setDate_result:
  assumes d: "1 \<le> d" "d \<le> daysInMonth (MonthFromTime t) (InLeapYear t)"
  shows "YearFromTime (setDate t d) = YearFromTime t \<and>
         MonthFromTime (setDate t d) = MonthFromTime t \<and>
         DateFromTime (setDate t d) = d \<and>
         Day (setDate t d) =
           DayFromYear (YearFromTime t) + daysBeforeMonth (MonthFromTime t) (InLeapYear t) + d - 1"
proof -
  have m: "0 \<le> MonthFromTime t" "MonthFromTime t < 12"
    using MonthFromDay_range by (simp_all add: MonthFromTime_def)
  have day: "Day (setDate t d) =
           DayFromYear (YearFromTime t) + daysBeforeMonth (MonthFromTime t) (InLeapYear t) + d - 1"
    using m by (simp add: setDate_def Day_MakeDate MakeDay_in_year InLeapYear_def)
  with date_composition [of "MonthFromTime t" d "YearFromTime t" "setDate t d"] m d
  show ?thesis by (simp add: InLeapYear_def)
qed

lemma setFullYear_next:
  "YearFromTime (setFullYear t (YearFromTime t + 1)) = YearFromTime t + 1 \<and>
   DayFromYear (YearFromTime t + 1) \<le> Day (setFullYear t (YearFromTime t + 1))"
proof -
  let ?Y = "YearFromTime t" and ?M = "MonthFromTime t" and ?D = "DateFromTime t"
  let ?l = "leapDays ?Y" and ?l' = "leapDays (?Y + 1)"
  have m: "0 \<le> ?M" "?M < 12"
    using MonthFromDay_range by (simp_all add: MonthFromTime_def)
  have D: "1 \<le> ?D" "?D \<le> daysInMonth ?M ?l"
    using DateFromTime_range [of t] by (simp_all add: InLeapYear_def)
  have day: "Day (setFullYear t (?Y + 1)) = DayFromYear (?Y + 1) + daysBeforeMonth ?M ?l' + ?D - 1"
    using m by (simp add: setFullYear_def Day_MakeDate MakeDay_in_year)
  have "0 \<le> daysBeforeMonth ?M ?l' + ?D - 1 \<and> daysBeforeMonth ?M ?l' + ?D - 1 < 365 + ?l'"
    using month_cases [OF m] D leapDays_cases [of ?Y] leapDays_cases [of "?Y + 1"]
    unfolding daysBeforeMonth_def daysInMonth_def
    by (elim disjE) simp_all
  moreover have "DayFromYear (?Y + 1 + 1) = DayFromYear (?Y + 1) + 365 + ?l'"
    by (rule DayFromYear_next)
  ultimately have "DayFromYear (?Y + 1) \<le> Day (setFullYear t (?Y + 1))"
    "Day (setFullYear t (?Y + 1)) < DayFromYear (?Y + 1 + 1)"
    using day by simp_all
  then show ?thesis
    using YearFromDay_unique [of "?Y + 1" "Day (setFullYear t (?Y + 1))"]
    by (simp add: YearFromTime_def)
qed




section \<open>Days of the week\<close>

lemma setDate_getDate: "setDate t (getDate t + k) = t + k * msPerDay"
proof -
  have m: "0 \<le> MonthFromTime t" "MonthFromTime t < 12"
    using MonthFromDay_range by (simp_all add: MonthFromTime_def)
  have "MakeDay (YearFromTime t) (MonthFromTime t) (getDate t + k) = Day t + k"
    using m by (simp add: MakeDay_in_year getDate_def DateFromTime_def DayWithinYear_def InLeapYear_def)
  then have "setDate t (getDate t + k) = (Day t + k) * msPerDay + TimeWithinDay t"
    by (simp add: setDate_def MakeDate_def)
  also have "\<dots> = t + k * msPerDay"
    by (simp add: Day_def TimeWithinDay_def algebra_simps)
  finally show ?thesis .
qed

lemma Day_add_days: "Day (t + k * msPerDay) = Day t + k"
  by (simp add: Day_def msPerDay_def)

lemma orSeven_mod_range: "1 \<le> orSeven (x mod 7) \<and> orSeven (x mod 7) \<le> 7"
proof -
  have "1 \<le> (if v = 0 then 7 else v) \<and> (if v = 0 then 7 else v) \<le> 7"
    if "0 \<le> v" "v < 7" for v :: int
    using that by auto
  then show ?thesis unfolding orSeven_def by simp
qed

text \<open>
  Claim C1, at a Monday. For ``next tuesday'' read on Monday, 2 June 2025, the resolved
  date is the next day, Tuesday, 3 June: the branches for ``next'' and a day compute the
  offset of the bare day, from 1 to 7 days, where the claim says at least 7 days and the
  usage guide says the Tuesday of next week.
\<close>

theorem next_weekday_is_coming_weekday:
  "getDay 1748865600000 = 1 \<and>
   Day (targetDate (parseDateTimeString 1748865600000 ''next tuesday'')) = Day 1748865600000 + 1 \<and>
   targetDate (parseDateTimeString 1748865600000 ''next tuesday'') =
   targetDate (parseDateTimeString 1748865600000 ''tuesday'')"
  by code_simp


text \<open>
  Claim C7 as stated fails when the text also has ``today'', which the code looks for
  before any day of the week: the date stays today.
\<close>

theorem weekday_with_today_counterexample:
  "includesStr (toLowerCase ''lunch today, not monday'') ''monday'' \<and>
   \<not> includesStr (toLowerCase ''lunch today, not monday'') ''next'' \<and>
   targetDate (parseDateTimeString 1748779200000 ''lunch today, not monday'') = 1748779200000"
  by code_simp

text \<open>
  Claim C7, amended. For every text that has the name of a day of the week and does not
  have ``today'', and every \<open>now\<close>, the resolved date is from 1 to 7 days after the
  date of \<open>now\<close>, never that date itself. The bound holds with or without ``next''.
\<close>

theorem weekday_within_week:
  assumes wd: "\<exists>w \<in> set weekdayNames. includesStr (toLowerCase s) w"
    and nt: "\<not> includesStr (toLowerCase s) ''today''"
  shows "1 \<le> Day (targetDate (parseDateTimeString now s)) - Day now \<and>
         Day (targetDate (parseDateTimeString now s)) - Day now \<le> 7"
proof -
  have r: "1 \<le> Day (setDate now (getDate now + orSeven (x mod 7))) - Day now \<and>
           Day (setDate now (getDate now + orSeven (x mod 7))) - Day now \<le> 7" for x
    using orSeven_mod_range [of x] by (simp add: setDate_getDate Day_add_days)
  have k: "1 \<le> Day (setDate now (getDate now + 1)) - Day now \<and>
           Day (setDate now (getDate now + 1)) - Day now \<le> 7"
          "1 \<le> Day (setDate now (getDate now + 7)) - Day now \<and>
           Day (setDate now (getDate now + 7)) - Day now \<le> 7"
    using setDate_getDate [of now 1] Day_add_days [of now 1]
          setDate_getDate [of now 7] Day_add_days [of now 7]
    by simp_all
  from wd have some: "includesStr (toLowerCase s) ''sunday'' \<or> includesStr (toLowerCase s) ''monday'' \<or>
      includesStr (toLowerCase s) ''tuesday'' \<or> includesStr (toLowerCase s) ''wednesday'' \<or>
      includesStr (toLowerCase s) ''thursday'' \<or> includesStr (toLowerCase s) ''friday'' \<or>
      includesStr (toLowerCase s) ''saturday''"
    by (simp add: weekdayNames_def)
  show ?thesis
    unfolding parseDateTimeString_def parseDate_def Let_def
    using some nt r k by (simp del: includesStr.simps) blast
qed


theorem weekday_within_week_witness:
  "includesStr (toLowerCase ''Friday at 3pm'') ''friday'' \<and>
   \<not> includesStr (toLowerCase ''Friday at 3pm'') ''today'' \<and>
   1 \<le> Day (targetDate (parseDateTimeString 1748865600000 ''Friday at 3pm'')) - Day 1748865600000 \<and>
   Day (targetDate (parseDateTimeString 1748865600000 ''Friday at 3pm'')) - Day 1748865600000 \<le> 7"
proof -
  have a: "includesStr (toLowerCase ''Friday at 3pm'') ''friday''"
    by code_simp
  have b: "\<not> includesStr (toLowerCase ''Friday at 3pm'') ''today''"
    by code_simp
  have h: "\<exists>w \<in> set weekdayNames. includesStr (toLowerCase ''Friday at 3pm'') w"
    by code_simp
  note w = weekday_within_week [OF h b, of 1748865600000]
  from a b w [THEN conjunct1] w [THEN conjunct2] show ?thesis
    by (intro conjI)
qed

section \<open>A month and a day\<close>

lemma TimeWithinDay_MakeDate: "TimeWithinDay (MakeDate d (TimeWithinDay t)) = TimeWithinDay t"
  by (simp add: TimeWithinDay_def MakeDate_def)

lemma Day_le_imp_le:
  assumes "Day a \<le> Day b" and "TimeWithinDay a = TimeWithinDay b"
  shows "a \<le> b"
proof -
  have "a = Day a * msPerDay + TimeWithinDay a" "b = Day b * msPerDay + TimeWithinDay b"
    by (simp_all add: Day_def TimeWithinDay_def)
  moreover have "Day a * msPerDay \<le> Day b * msPerDay"
    using assms(1) by (intro mult_right_mono) (simp_all add: msPerDay_def)
  ultimately show ?thesis
    using assms(2) by simp
qed

text \<open>
  The date after \<open>setMonth\<close> and \<open>setDate\<close> for a month \<open>m\<close> and a day \<open>d\<close> of that
  month: it lies in the year of \<open>now\<close>, at the time of day of \<open>now\<close>, and before the
  day of \<open>now\<close> exactly when month and day come before those of \<open>now\<close>.
\<close>

lemma month_day_target:
  fixes now m d :: int
  assumes m: "0 \<le> m" "m < 12" and d: "1 \<le> d" "d \<le> daysInMonth m (InLeapYear now)"
  shows "YearFromTime (setDate (setMonth now m) d) = YearFromTime now \<and>
         TimeWithinDay (setDate (setMonth now m) d) = TimeWithinDay now \<and>
         (Day (setDate (setMonth now m) d) < Day now \<longleftrightarrow>
            m < getMonth now \<or> (m = getMonth now \<and> d < getDate now))"
proof -
  let ?Y = "YearFromTime now" and ?M = "MonthFromTime now" and ?D = "DateFromTime now"
  let ?l = "InLeapYear now"
  let ?t1 = "setMonth now m"
  let ?m1 = "MonthFromTime ?t1"
  let ?t2 = "setDate ?t1 d"
  let ?earlier = "m < ?M \<or> (m = ?M \<and> d < ?D)"
  have l: "?l = 0 \<or> ?l = 1"
    using leapDays_cases [of ?Y] by (simp add: InLeapYear_def)
  have M: "0 \<le> ?M" "?M < 12"
    using MonthFromDay_range by (simp_all add: MonthFromTime_def)
  have D: "1 \<le> ?D" "?D \<le> daysInMonth ?M ?l"
    using DateFromTime_range [of now] by simp_all
  have D31: "?D \<le> 31"
    using D daysInMonth_range [OF l, of ?M] by simp
  have d31: "d \<le> 31"
    using d daysInMonth_range [OF l, of m] by simp
  note sm = setMonth_result [OF m, of now]
  have y1: "YearFromTime ?t1 = ?Y" "InLeapYear ?t1 = ?l"
    using sm by simp_all
  have m1: "?m1 = (if ?D \<le> daysInMonth m ?l then m else m + 1)"
    using sm by (simp split: if_splits)
  have next_M: "daysBeforeMonth ?M ?l + ?D \<le> daysBeforeMonth k ?l" if "?M < k" "k < 12" for k
  proof -
    from that have "daysBeforeMonth (?M + 1) ?l \<le> daysBeforeMonth k ?l"
      using M by (intro daysBeforeMonth_mono [OF l]) simp_all
    moreover have "daysBeforeMonth (?M + 1) ?l = daysBeforeMonth ?M ?l + daysInMonth ?M ?l"
      using that M by (intro daysBeforeMonth_next) simp_all
    ultimately show ?thesis using D by simp
  qed
  have before_M: "daysBeforeMonth k ?l + daysInMonth k ?l \<le> daysBeforeMonth ?M ?l"
    if "0 \<le> k" "k < ?M" for k
  proof -
    from that have "daysBeforeMonth (k + 1) ?l \<le> daysBeforeMonth ?M ?l"
      using M by (intro daysBeforeMonth_mono [OF l]) simp_all
    moreover have "daysBeforeMonth (k + 1) ?l = daysBeforeMonth k ?l + daysInMonth k ?l"
      using that M by (intro daysBeforeMonth_next) simp_all
    ultimately show ?thesis by simp
  qed
  have cmp: "(daysBeforeMonth ?m1 ?l + d < daysBeforeMonth ?M ?l + ?D \<longleftrightarrow> ?earlier) \<and>
             d \<le> daysInMonth ?m1 ?l"
  proof (cases "?D \<le> daysInMonth m ?l")
    case True
    then have eq: "?m1 = m" using m1 by simp
    consider "m < ?M" | "m = ?M" | "?M < m" by linarith
    then show ?thesis
    proof cases
      case 1
      with before_M [of m] m eq d D show ?thesis by simp
    next
      case 2
      with eq d show ?thesis by simp
    next
      case 3
      with next_M [of m] m eq d show ?thesis by simp
    qed
  next
    case False
    then have eq: "?m1 = m + 1" using m1 by simp
    from False D31 have short: "daysInMonth m ?l < 31" by simp
    note s = short_month [OF l m short]
    from False D have ne: "m \<noteq> ?M" by auto
    consider "m + 1 < ?M" | "m + 1 = ?M" | "?M < m" using ne by linarith
    then show ?thesis
    proof cases
      case 1
      with before_M [of "m + 1"] m eq s d31 D show ?thesis by simp
    next
      case 2
      with eq d False s d31 show ?thesis by simp
    next
      case 3
      with next_M [of "m + 1"] eq s d d31 show ?thesis by simp
    qed
  qed
  have d1: "d \<le> daysInMonth ?m1 (InLeapYear ?t1)"
    using cmp y1 by simp
  note sd = setDate_result [OF d(1) d1]
  have y2: "YearFromTime ?t2 = ?Y"
    using sd y1 by simp
  have tod: "TimeWithinDay ?t2 = TimeWithinDay now"
    by (simp add: setDate_def setMonth_def TimeWithinDay_MakeDate)
  have "Day ?t2 = DayFromYear ?Y + daysBeforeMonth ?m1 ?l + d - 1"
    using sd y1 by simp
  moreover have "Day now = DayFromYear ?Y + daysBeforeMonth ?M ?l + ?D - 1"
    by (rule day_decomposition)
  ultimately have "Day ?t2 < Day now \<longleftrightarrow> ?earlier"
    using cmp by simp
  with y2 tod show ?thesis
    by (simp add: getMonth_def getDate_def)
qed

lemma month_day_rolls_forward:
  fixes now m d :: int
  assumes m: "0 \<le> m" "m < 12" and d: "1 \<le> d" "d \<le> daysInMonth m (InLeapYear now)"
  shows "now \<le> assumeNextYear now (setDate (setMonth now m) d) \<and>
         getFullYear (assumeNextYear now (setDate (setMonth now m) d)) =
           (if m < getMonth now \<or> (m = getMonth now \<and> d < getDate now)
            then getFullYear now + 1 else getFullYear now)"
proof -
  define t2 where "t2 = setDate (setMonth now m) d"
  define earlier where "earlier \<longleftrightarrow> m < getMonth now \<or> (m = getMonth now \<and> d < getDate now)"
  note t = month_day_target [OF m d, folded t2_def earlier_def]
  have y2: "YearFromTime t2 = YearFromTime now"
    using t by (rule conjunct1)
  have tod: "TimeWithinDay t2 = TimeWithinDay now"
    using t by (rule conjunct2 [THEN conjunct1])
  have lt: "Day t2 < Day now \<longleftrightarrow> earlier"
    using t by (rule conjunct2 [THEN conjunct2])
  have "now \<le> assumeNextYear now t2 \<and>
        getFullYear (assumeNextYear now t2) =
          (if earlier then getFullYear now + 1 else getFullYear now)"
  proof (cases earlier)
    case True
    with lt have "Day t2 < Day now" by blast
    then have past: "t2 < now"
      by (rule Day_less_imp_less)
    then have roll: "assumeNextYear now t2 = setFullYear t2 (YearFromTime t2 + 1)"
      unfolding assumeNextYear_def getFullYear_def by (rule if_P)
    note sf = setFullYear_next [of t2]
    have y3: "YearFromTime (setFullYear t2 (YearFromTime t2 + 1)) = YearFromTime now + 1"
      using sf [THEN conjunct1] by (simp only: y2)
    have "Day now < DayFromYear (YearFromTime now + 1)"
      using YearFromDay_bounds [of "Day now"] unfolding YearFromTime_def by (rule conjunct2)
    also have "DayFromYear (YearFromTime now + 1) = DayFromYear (YearFromTime t2 + 1)"
      unfolding y2 by (rule refl)
    also have "\<dots> \<le> Day (setFullYear t2 (YearFromTime t2 + 1))"
      using sf by (rule conjunct2)
    finally have "now < setFullYear t2 (YearFromTime t2 + 1)"
      by (rule Day_less_imp_less)
    then have "now \<le> assumeNextYear now t2"
      unfolding roll by (rule less_imp_le)
    moreover have "getFullYear (assumeNextYear now t2) = getFullYear now + 1"
      unfolding roll getFullYear_def by (rule y3)
    ultimately show ?thesis
      using True by (simp only: if_True)
  next
    case False
    with lt have "\<not> Day t2 < Day now" by blast
    then have "Day now \<le> Day t2" by (simp only: not_less)
    then have le: "now \<le> t2"
      using tod [symmetric] by (rule Day_le_imp_le)
    then have "\<not> t2 < now" by (simp only: not_less)
    then have keep: "assumeNextYear now t2 = t2"
      unfolding assumeNextYear_def by (rule if_not_P)
    have "getFullYear (assumeNextYear now t2) = getFullYear now"
      unfolding keep getFullYear_def by (rule y2)
    moreover have "now \<le> assumeNextYear now t2"
      unfolding keep by (rule le)
    ultimately show ?thesis
      using False by (simp only: if_False)
  qed
  then show ?thesis
    unfolding t2_def earlier_def .
qed

text \<open>
  The rule for a date before \<open>now\<close>. Let the text be resolved by a month and a day:
  none of the relative words occurs, no number of days is given, and either the
  month-and-day expression matches and its word names month \<open>m\<close>, or it does not
  match and the expression with a slash does. When \<open>d\<close> is a day of month \<open>m\<close> in
  the year of \<open>now\<close>, the resolved date is never before \<open>now\<close>, and it lies in the
  next year, one year on and never more, exactly when month and day come before those
  of \<open>now\<close>.
\<close>

theorem month_day_rollover:
  assumes nokw: "\<forall>k \<in> set relativeDateWords. \<not> includesStr (toLowerCase s) k"
    and noin: "rxSearch False inDaysRx (toLowerCase s) = None"
    and fmt: "(\<exists>m0 cs. rxSearch True monthDayRx s = Some (m0, cs) \<and>
                 monthIndexOf (toLowerCase (grpText cs 1)) = m \<and> int (parseInt (grpText cs 2)) = d) \<or>
              (rxSearch True monthDayRx s = None \<and>
               (\<exists>m0 cs. rxSearch False slashDateRx s = Some (m0, cs) \<and>
                  int (parseInt (grpText cs 1)) - 1 = m \<and> int (parseInt (grpText cs 2)) = d))"
    and m: "0 \<le> m" "m < 12"
    and d: "1 \<le> d" "d \<le> daysInMonth m (InLeapYear now)"
  shows "now \<le> targetDate (parseDateTimeString now s) \<and>
         getFullYear (targetDate (parseDateTimeString now s)) =
           (if m < getMonth now \<or> (m = getMonth now \<and> d < getDate now)
            then getFullYear now + 1 else getFullYear now)"
proof -
  have "parseDate now s = assumeNextYear now (setDate (setMonth now m) d)"
    using fmt
  proof
    assume "\<exists>m0 cs. rxSearch True monthDayRx s = Some (m0, cs) \<and>
                 monthIndexOf (toLowerCase (grpText cs 1)) = m \<and> int (parseInt (grpText cs 2)) = d"
    then obtain m0 cs where "rxSearch True monthDayRx s = Some (m0, cs)"
      "monthIndexOf (toLowerCase (grpText cs 1)) = m" "int (parseInt (grpText cs 2)) = d"
      by blast
    then show ?thesis
      unfolding parseDate_def Let_def using nokw noin m
      by (simp add: relativeDateWords_def del: includesStr.simps)
  next
    assume "rxSearch True monthDayRx s = None \<and>
               (\<exists>m0 cs. rxSearch False slashDateRx s = Some (m0, cs) \<and>
                  int (parseInt (grpText cs 1)) - 1 = m \<and> int (parseInt (grpText cs 2)) = d)"
    then obtain m0 cs where "rxSearch True monthDayRx s = None"
      "rxSearch False slashDateRx s = Some (m0, cs)"
      "int (parseInt (grpText cs 1)) - 1 = m" "int (parseInt (grpText cs 2)) = d"
      by blast
    then show ?thesis
      unfolding parseDate_def Let_def using nokw noin
      by (simp add: relativeDateWords_def del: includesStr.simps)
  qed
  then show ?thesis
    using month_day_rolls_forward [OF m d]
    by (simp add: parseDateTimeString_def)
qed

lemma month_day_rollover_examples:
  "getFullYear 1755259200000 = 2025 \<and> getMonth 1755259200000 = 7 \<and> getDate 1755259200000 = 15 \<and>
   rxSearch True monthDayRx ''June 10th'' = Some (''June 10th'', [(2, ''10''), (1, ''June'')]) \<and>
   monthIndexOf ''june'' = 5 \<and>
   1755259200000 \<le> targetDate (parseDateTimeString 1755259200000 ''June 10th'') \<and>
   getFullYear (targetDate (parseDateTimeString 1755259200000 ''June 10th'')) = 2026 \<and>
   rxSearch True monthDayRx ''3/15'' = None \<and>
   rxSearch False slashDateRx ''3/15'' = Some (''3/15'', [(2, ''15''), (1, ''3'')]) \<and>
   1755259200000 \<le> targetDate (parseDateTimeString 1755259200000 ''3/15'') \<and>
   getFullYear (targetDate (parseDateTimeString 1755259200000 ''3/15'')) = 2026"
proof -
  have y: "getFullYear 1755259200000 = 2025"
    by code_simp
  have mo: "getMonth 1755259200000 = 7"
    by code_simp
  have da: "getDate 1755259200000 = 15"
    by code_simp
  have rx: "rxSearch True monthDayRx ''June 10th'' = Some (''June 10th'', [(2, ''10''), (1, ''June'')])"
    by code_simp
  have mi: "monthIndexOf ''june'' = 5"
    by code_simp
  have h1: "\<forall>k \<in> set relativeDateWords. \<not> includesStr (toLowerCase ''June 10th'') k"
    by code_simp
  have h2: "rxSearch False inDaysRx (toLowerCase ''June 10th'') = None"
    by code_simp
  have g1: "monthIndexOf (toLowerCase (grpText [(2, ''10''), (1, ''June'')] 1)) = 5"
    by code_simp
  have g2: "int (parseInt (grpText [(2, ''10''), (1, ''June'')] 2)) = 10"
    by code_simp
  from rx g1 g2
  have h3: "(\<exists>m0 cs. rxSearch True monthDayRx ''June 10th'' = Some (m0, cs) \<and>
                 monthIndexOf (toLowerCase (grpText cs 1)) = 5 \<and> int (parseInt (grpText cs 2)) = 10) \<or>
              (rxSearch True monthDayRx ''June 10th'' = None \<and>
               (\<exists>m0 cs. rxSearch False slashDateRx ''June 10th'' = Some (m0, cs) \<and>
                  int (parseInt (grpText cs 1)) - 1 = 5 \<and> int (parseInt (grpText cs 2)) = 10))"
    by blast
  have h4: "(0::int) \<le> 5" "(5::int) < 12" "(1::int) \<le> 10"
    by simp_all
  have h5: "10 \<le> daysInMonth 5 (InLeapYear 1755259200000)"
    by code_simp
  note w = month_day_rollover [OF h1 h2 h3 h4 h5]
  have "5 < getMonth 1755259200000 \<or> (5 = getMonth 1755259200000 \<and> 10 < getDate 1755259200000)"
    unfolding mo by simp
  with w have "getFullYear (targetDate (parseDateTimeString 1755259200000 ''June 10th'')) =
      getFullYear 1755259200000 + 1"
    by (simp only: if_True)
  then have june: "getFullYear (targetDate (parseDateTimeString 1755259200000 ''June 10th'')) = 2026"
    unfolding y by simp
  have no: "rxSearch True monthDayRx ''3/15'' = None"
    by code_simp
  have sl: "rxSearch False slashDateRx ''3/15'' = Some (''3/15'', [(2, ''15''), (1, ''3'')])"
    by code_simp
  have k1: "\<forall>k \<in> set relativeDateWords. \<not> includesStr (toLowerCase ''3/15'') k"
    by code_simp
  have k2: "rxSearch False inDaysRx (toLowerCase ''3/15'') = None"
    by code_simp
  have p1: "int (parseInt (grpText [(2, ''15''), (1, ''3'')] 1)) - 1 = 2"
    by code_simp
  have p2: "int (parseInt (grpText [(2, ''15''), (1, ''3'')] 2)) = 15"
    by code_simp
  from no sl p1 p2
  have k3: "(\<exists>m0 cs. rxSearch True monthDayRx ''3/15'' = Some (m0, cs) \<and>
                 monthIndexOf (toLowerCase (grpText cs 1)) = 2 \<and> int (parseInt (grpText cs 2)) = 15) \<or>
              (rxSearch True monthDayRx ''3/15'' = None \<and>
               (\<exists>m0 cs. rxSearch False slashDateRx ''3/15'' = Some (m0, cs) \<and>
                  int (parseInt (grpText cs 1)) - 1 = 2 \<and> int (parseInt (grpText cs 2)) = 15))"
    by blast
  have k4: "(0::int) \<le> 2" "(2::int) < 12" "(1::int) \<le> 15"
    by simp_all
  have k5: "15 \<le> daysInMonth 2 (InLeapYear 1755259200000)"
    by code_simp
  note v = month_day_rollover [OF k1 k2 k3 k4 k5]
  have "2 < getMonth 1755259200000 \<or> (2 = getMonth 1755259200000 \<and> 15 < getDate 1755259200000)"
    unfolding mo by simp
  with v have "getFullYear (targetDate (parseDateTimeString 1755259200000 ''3/15'')) =
      getFullYear 1755259200000 + 1"
    by (simp only: if_True)
  then have march: "getFullYear (targetDate (parseDateTimeString 1755259200000 ''3/15'')) = 2026"
    unfolding y by simp
  from y mo da rx mi w [THEN conjunct1] june no sl v [THEN conjunct1] march show ?thesis
    by (intro conjI)
qed

lemma at_is_no_month:
  "rxSearch True monthDayRx ''3/15 at 2pm'' = Some (''at 2'', [(2, ''2''), (1, ''at'')])"
  "monthIndexOf ''at'' = - 1"
  by code_simp+

text \<open>
  Claim C5, at a date with a slash followed by a time. For ``3/15 at 2pm'' read on
  15 August 2025 the month-and-day expression matches ``at 2'', which names no month,
  and because it matched, the expression with a slash is never tried: the date stays
  15 August 2025, where the claim says the year is advanced by one, to March 2026.
\<close>

theorem slash_date_with_time_not_resolved:
  "getFullYear 1755259200000 = 2025 \<and> getMonth 1755259200000 = 7 \<and> getDate 1755259200000 = 15 \<and>
   targetDate (parseDateTimeString 1755259200000 ''3/15 at 2pm'') = 1755259200000"
  by code_simp

text \<open>
  A text the rule does resolve, to another month: \<open>setMonth\<close> keeps the day of the
  month of \<open>now\<close>, so on 31 May 2025 ``Feb 10'' passes through 3 March and is resolved
  to 10 March of the next year.
\<close>

lemma month_overflow_example:
  "getFullYear 1748692800000 = 2025 \<and> getMonth 1748692800000 = 4 \<and> getDate 1748692800000 = 31"
  "getFullYear (parseDate 1748692800000 ''Feb 10'') = 2026 \<and>
   getMonth (parseDate 1748692800000 ''Feb 10'') = 2 \<and>
   getDate (parseDate 1748692800000 ''Feb 10'') = 10"
  by code_simp+

section \<open>Time extraction and end time\<close>

lemma time_with_meridiem_examples:
  "parseTime ''at 2pm'' = Some \<lparr>hour = 2, minute = 0, period = ''PM''\<rparr>"
  "parseTime ''at noon'' = Some \<lparr>hour = 12, minute = 0, period = ''PM''\<rparr>"
  "parseTime ''at midnight'' = Some \<lparr>hour = 12, minute = 0, period = ''AM''\<rparr>"
  by code_simp+

text \<open>
  Every alternative of the time expression ends with a literal: the hour with \<^verbatim>\<open>am\<close> or
  \<^verbatim>\<open>pm\<close>, the others with \<^verbatim>\<open>noon\<close> and \<^verbatim>\<open>midnight\<close>. So the matched text, and with
  it the whole text, names a meridiem, and the branch of parseDateTimeString for an empty
  period is never taken.
\<close>

lemma startsWith_includesStr: "startsWith s x \<Longrightarrow> includesStr s x"
  by (cases s) (auto simp: startsWith_def)

lemma includesStr_same: "includesStr (x @ post) x"
  by (rule startsWith_includesStr) (simp add: startsWith_def)

lemma includesStr_middle: "includesStr (pre @ x @ post) x"
proof (induction pre)
  case Nil
  show ?case using includesStr_same by simp
next
  case (Cons c pre)
  then show ?case by simp
qed

lemma includesStr_split: "includesStr s x \<Longrightarrow> \<exists>a b. s = a @ x @ b"
proof (induction s)
  case Nil
  then show ?case by simp
next
  case (Cons c s)
  from Cons.prems have "startsWith (c # s) x \<or> includesStr s x" by simp
  then show ?case
  proof
    assume "startsWith (c # s) x"
    then have "c # s = [] @ x @ drop (length x) (c # s)"
      unfolding startsWith_def by (metis append_Nil append_take_drop_id)
    then show ?thesis by blast
  next
    assume "includesStr s x"
    from Cons.IH [OF this] obtain a b where "s = a @ x @ b" by blast
    then have "c # s = (c # a) @ x @ b" by simp
    then show ?thesis by blast
  qed
qed

lemma toLowerCase_append: "toLowerCase (a @ b) = toLowerCase a @ toLowerCase b"
  by (simp add: toLowerCase_def)

text \<open>What a match leaves is the end of the text it started from.\<close>

lemma rxMatch_rest:
  "(rest, cs') \<in> set (rxMatch ic r (s, cs)) \<Longrightarrow> \<exists>pre. s = pre @ rest"
proof (induction r arbitrary: s cs rest cs')
  case (Lit l)
  then have "rest = drop (length l) s"
    by (simp split: if_splits)
  then have "s = take (length l) s @ rest" by simp
  then show ?case ..
next
  case (Rep c lo hi)
  then obtain k where "rest = drop k s"
    by (auto simp: Let_def)
  then have "s = take k s @ rest" by simp
  then show ?case ..
next
  case (Seq a b)
  from Seq.prems obtain mid csm where mid: "(mid, csm) \<in> set (rxMatch ic a (s, cs))"
    and fin: "(rest, cs') \<in> set (rxMatch ic b (mid, csm))"
    by auto
  from Seq.IH(1) [OF mid] obtain p where "s = p @ mid" ..
  moreover from Seq.IH(2) [OF fin] obtain q where "mid = q @ rest" ..
  ultimately have "s = (p @ q) @ rest" by simp
  then show ?case ..
next
  case (Alt a b)
  then show ?case by auto
next
  case (Opt a)
  from Opt.prems have "(rest, cs') \<in> set (rxMatch ic a (s, cs)) \<or> rest = s"
    by auto
  then show ?case
  proof
    assume "(rest, cs') \<in> set (rxMatch ic a (s, cs))"
    then show ?thesis by (rule Opt.IH)
  next
    assume "rest = s"
    then have "s = [] @ rest" by simp
    then show ?thesis ..
  qed
next
  case (Grp k a)
  then obtain c0 where "(rest, c0) \<in> set (rxMatch ic a (s, cs))"
    by auto
  then show ?case by (rule Grp.IH)
qed

lemma rxMatch_Seq:
  assumes "(rest, cs') \<in> set (rxMatch ic (Seq a b) (s, cs))"
  obtains mid csm where "(mid, csm) \<in> set (rxMatch ic a (s, cs))"
    and "(rest, cs') \<in> set (rxMatch ic b (mid, csm))" and "\<exists>p. s = p @ mid"
proof -
  from assms obtain mid csm where m: "(mid, csm) \<in> set (rxMatch ic a (s, cs))"
    and r: "(rest, cs') \<in> set (rxMatch ic b (mid, csm))"
    by auto
  from rxMatch_rest [OF m] have "\<exists>p. s = p @ mid" .
  with m r that show ?thesis by blast
qed

text \<open>
  A match that ends with a literal, under the flag \<^verbatim>\<open>i\<close>: the text it consumed ends with
  a casing of the literal.
\<close>

lemma ends_with_literal:
  assumes s: "s = p @ mid"
    and lit: "(rest, cs') \<in> set (rxMatch True (Lit l) (mid, csm))"
  shows "includesStr (toLowerCase (take (length s - length rest) s)) (toLowerCase l)"
proof -
  from lit have m: "litMatches True l mid" and rest: "rest = drop (length l) mid"
    by (simp_all split: if_splits)
  from m have len: "length l \<le> length mid" and low: "toLowerCase (take (length l) mid) = toLowerCase l"
    by (simp_all add: litMatches_def)
  have "take (length s - length rest) s = p @ take (length l) mid"
    using s rest len by simp
  then have "toLowerCase (take (length s - length rest) s) = toLowerCase p @ toLowerCase l @ []"
    using low by (simp add: toLowerCase_append)
  then show ?thesis
    by (simp only: includesStr_middle)
qed

lemma timeRx_consumes:
  assumes "(rest, cs') \<in> set (rxMatch True timeRx (s, cs))"
  shows "hasMeridiem (toLowerCase (take (length s - length rest) s))"
proof -
  let ?m0 = "take (length s - length rest) s"
  let ?G3 = "Grp 3 (Alt (Lit ''am'') (Alt (Lit ''pm'') (Alt (Lit ''AM'') (Lit ''PM''))))"
  from assms consider
      (hour) "(rest, cs') \<in> set (rxMatch True
          (Seq optAt (Seq (Grp 1 (Rep Digit 1 (Some 2)))
             (Seq (Opt (Seq (Lit '':'') (Grp 2 (Rep Digit 2 (Some 2)))))
               (Seq (Rep Space 0 None) ?G3)))) (s, cs))"
    | (noon) "(rest, cs') \<in> set (rxMatch True (Seq optAt (Lit ''noon'')) (s, cs))"
    | (midnight) "(rest, cs') \<in> set (rxMatch True (Seq optAt (Lit ''midnight'')) (s, cs))"
    unfolding timeRx_def by (auto simp del: rxMatch.simps(1,2,3,5,6))
  then have "includesStr (toLowerCase ?m0) ''am'' \<or> includesStr (toLowerCase ?m0) ''pm'' \<or>
             includesStr (toLowerCase ?m0) ''noon'' \<or> includesStr (toLowerCase ?m0) ''midnight''"
  proof cases
    case hour
    from hour obtain s1 c1 where 1: "(rest, cs') \<in> set (rxMatch True
          (Seq (Grp 1 (Rep Digit 1 (Some 2)))
             (Seq (Opt (Seq (Lit '':'') (Grp 2 (Rep Digit 2 (Some 2)))))
               (Seq (Rep Space 0 None) ?G3))) (s1, c1))" and p1: "\<exists>p. s = p @ s1"
      by (rule rxMatch_Seq)
    from 1 obtain s2 c2 where 2: "(rest, cs') \<in> set (rxMatch True
             (Seq (Opt (Seq (Lit '':'') (Grp 2 (Rep Digit 2 (Some 2)))))
               (Seq (Rep Space 0 None) ?G3)) (s2, c2))" and p2: "\<exists>p. s1 = p @ s2"
      by (rule rxMatch_Seq)
    from 2 obtain s3 c3 where 3: "(rest, cs') \<in> set (rxMatch True
               (Seq (Rep Space 0 None) ?G3) (s3, c3))" and p3: "\<exists>p. s2 = p @ s3"
      by (rule rxMatch_Seq)
    from 3 obtain s4 c4 where 4: "(rest, cs') \<in> set (rxMatch True ?G3 (s4, c4))"
      and p4: "\<exists>p. s3 = p @ s4"
      by (rule rxMatch_Seq)
    from p1 p2 p3 p4 obtain p where s: "s = p @ s4"
      by (metis append.assoc)
    from 4 obtain c0 where
      "(rest, c0) \<in> set (rxMatch True (Lit ''am'') (s4, c4)) \<or>
       (rest, c0) \<in> set (rxMatch True (Lit ''pm'') (s4, c4)) \<or>
       (rest, c0) \<in> set (rxMatch True (Lit ''AM'') (s4, c4)) \<or>
       (rest, c0) \<in> set (rxMatch True (Lit ''PM'') (s4, c4))"
      by (auto simp del: rxMatch.simps(1))
    then have "includesStr (toLowerCase ?m0) (toLowerCase ''am'') \<or>
               includesStr (toLowerCase ?m0) (toLowerCase ''pm'') \<or>
               includesStr (toLowerCase ?m0) (toLowerCase ''AM'') \<or>
               includesStr (toLowerCase ?m0) (toLowerCase ''PM'')"
      using ends_with_literal [OF s] by blast
    moreover have "toLowerCase ''am'' = ''am''" "toLowerCase ''pm'' = ''pm''"
      "toLowerCase ''AM'' = ''am''" "toLowerCase ''PM'' = ''pm''"
      by code_simp+
    ultimately show ?thesis by (simp only:) blast
  next
    case noon
    from noon obtain s1 c1 where "(rest, cs') \<in> set (rxMatch True (Lit ''noon'') (s1, c1))"
      and "\<exists>p. s = p @ s1"
      by (rule rxMatch_Seq)
    then have "includesStr (toLowerCase ?m0) (toLowerCase ''noon'')"
      using ends_with_literal by blast
    moreover have "toLowerCase ''noon'' = ''noon''"
      by code_simp
    ultimately have "includesStr (toLowerCase ?m0) ''noon''"
      by (simp only:)
    then show ?thesis by blast
  next
    case midnight
    from midnight obtain s1 c1 where "(rest, cs') \<in> set (rxMatch True (Lit ''midnight'') (s1, c1))"
      and "\<exists>p. s = p @ s1"
      by (rule rxMatch_Seq)
    then have "includesStr (toLowerCase ?m0) (toLowerCase ''midnight'')"
      using ends_with_literal by blast
    moreover have "toLowerCase ''midnight'' = ''midnight''"
      by code_simp
    ultimately have "includesStr (toLowerCase ?m0) ''midnight''"
      by (simp only:)
    then show ?thesis by blast
  qed
  then show ?thesis
    by (simp only: hasMeridiem_def)
qed

lemma rxSearch_timeRx:
  "rxSearch True timeRx s = Some (m0, cs) \<Longrightarrow>
   \<exists>pre post. s = pre @ m0 @ post \<and> hasMeridiem (toLowerCase m0)"
proof (induction s)
  case Nil
  then obtain rest where in0: "(rest, cs) \<in> set (rxMatch True timeRx ([], []))" and m0: "m0 = []"
    by (auto split: list.splits simp del: rxMatch.simps)
  from timeRx_consumes [OF in0] m0 have "hasMeridiem (toLowerCase m0)"
    by simp
  moreover have "[] = [] @ m0 @ []" using m0 by simp
  ultimately show ?case by blast
next
  case (Cons c s)
  show ?case
  proof (cases "rxMatch True timeRx (c # s, [])")
    case Nil
    with Cons.prems have "rxSearch True timeRx s = Some (m0, cs)"
      by (simp del: rxMatch.simps)
    from Cons.IH [OF this] obtain pre post where "s = pre @ m0 @ post"
      and k: "hasMeridiem (toLowerCase m0)"
      by blast
    then have "c # s = (c # pre) @ m0 @ post" by simp
    with k show ?thesis by blast
  next
    case (Cons y ys)
    obtain rest cs0 where y: "y = (rest, cs0)" by (cases y)
    with Cons Cons.prems have m0: "m0 = take (length (c # s) - length rest) (c # s)" and "cs0 = cs"
      by (simp_all del: rxMatch.simps)
    from Cons y have in0: "(rest, cs0) \<in> set (rxMatch True timeRx (c # s, []))"
      by simp
    from rxMatch_rest [OF in0] obtain p where p: "c # s = p @ rest" ..
    then have "m0 = p" using m0 by simp
    with p have "c # s = [] @ m0 @ rest" by simp
    moreover from timeRx_consumes [OF in0] m0
    have "hasMeridiem (toLowerCase m0)" by simp
    ultimately show ?thesis by blast
  qed
qed

text \<open>
  A text has no time unless it has one of ``am'', ``pm'', ``noon'' and ``midnight'' in
  it, in any casing: an hour alone never gets a period from the table of parseDateTimeString.
\<close>

lemma hasMeridiem_middle:
  assumes "hasMeridiem m"
  shows "hasMeridiem (pre @ m @ post)"
proof -
  have "includesStr (pre @ m @ post) k" if "includesStr m k" for k
  proof -
    from includesStr_split [OF that] obtain a b where "m = a @ k @ b" by blast
    then have "pre @ m @ post = (pre @ a) @ k @ (b @ post)" by simp
    then show ?thesis by (simp only: includesStr_middle)
  qed
  with assms show ?thesis
    unfolding hasMeridiem_def by blast
qed

lemma time_needs_meridiem:
  assumes "\<not> hasMeridiem (toLowerCase s)"
  shows "parseTime s = None"
proof (cases "rxSearch True timeRx s")
  case None
  then show ?thesis by (simp add: parseTime_def)
next
  case (Some r)
  obtain m0 cs where "r = (m0, cs)" by (cases r)
  with Some have "rxSearch True timeRx s = Some (m0, cs)" by simp
  from rxSearch_timeRx [OF this] obtain pre post where s: "s = pre @ m0 @ post"
    and k: "hasMeridiem (toLowerCase m0)"
    by blast
  from s have "toLowerCase s = toLowerCase pre @ toLowerCase m0 @ toLowerCase post"
    by (simp add: toLowerCase_append)
  with hasMeridiem_middle [OF k] have "hasMeridiem (toLowerCase s)"
    by simp
  with assms show ?thesis by blast
qed

lemma bare_hours_have_no_meridiem:
  "\<not> hasMeridiem (toLowerCase ''at 9'')"
  "\<not> hasMeridiem (toLowerCase ''meeting tomorrow at 3'')"
  "\<not> hasMeridiem (toLowerCase ''Lunch on Friday at 12:30'')"
  by code_simp+

text \<open>
  Claim C2, at the bare hours. The expression of the time requires \<^verbatim>\<open>am\<close> or \<^verbatim>\<open>pm\<close>
  after the hour, so a text with a bare hour has no match: for ``at 9'', ``at 3'' and
  ``at 12'' parseDateTimeString returns no time at all, where the claim (and the table
  for an hour without a period, in the code itself) says 9 AM, 3 PM and 12 PM.
\<close>

theorem bare_hour_has_no_time:
  "parseTime ''at 9'' = None \<and> parseTime ''at 3'' = None \<and> parseTime ''at 12'' = None"
  by code_simp

text \<open>
  Claim C6. The end time is one hour after the start time, around the clock: 11 AM gives
  12 PM, 12 PM gives 1 PM, 11 PM gives 12 AM, 12 AM gives 1 AM, and any other hour gives
  the next hour with the same period; the minutes stay. For an hour from 1 to 12 the end
  time is 60 minutes later on the clock of 1440 minutes.
\<close>

theorem end_time_one_hour_later:
  "endTime \<lparr>hour = 11, minute = m, period = ''AM''\<rparr> = (12, m, ''PM'') \<and>
   endTime \<lparr>hour = 12, minute = m, period = ''PM''\<rparr> = (1, m, ''PM'') \<and>
   endTime \<lparr>hour = 11, minute = m, period = ''PM''\<rparr> = (12, m, ''AM'') \<and>
   endTime \<lparr>hour = 12, minute = m, period = ''AM''\<rparr> = (1, m, ''AM'') \<and>
   (h \<noteq> 11 \<and> h \<noteq> 12 \<longrightarrow> endTime \<lparr>hour = h, minute = m, period = p\<rparr> = (h + 1, m, p)) \<and>
   (1 \<le> h \<and> h \<le> 12 \<and> m < 60 \<and> (p = ''AM'' \<or> p = ''PM'') \<longrightarrow>
      (case endTime \<lparr>hour = h, minute = m, period = p\<rparr> of
         (h', m', p') \<Rightarrow> minutesOfDay h' m' p' = (minutesOfDay h m p + 60) mod 1440))"
proof -
  have wrap: "endTime \<lparr>hour = 11, minute = m, period = ''AM''\<rparr> = (12, m, ''PM'')"
    "endTime \<lparr>hour = 12, minute = m, period = ''PM''\<rparr> = (1, m, ''PM'')"
    "endTime \<lparr>hour = 11, minute = m, period = ''PM''\<rparr> = (12, m, ''AM'')"
    "endTime \<lparr>hour = 12, minute = m, period = ''AM''\<rparr> = (1, m, ''AM'')"
    by (simp_all add: endTime_def)
  have other: "endTime \<lparr>hour = h, minute = m, period = p\<rparr> = (h + 1, m, p)"
    if "h \<noteq> 11 \<and> h \<noteq> 12"
    using that by (simp add: endTime_def)
  have later: "(case endTime \<lparr>hour = h, minute = m, period = p\<rparr> of
         (h', m', p') \<Rightarrow> minutesOfDay h' m' p' = (minutesOfDay h m p + 60) mod 1440)"
    if range: "1 \<le> h \<and> h \<le> 12 \<and> m < 60 \<and> (p = ''AM'' \<or> p = ''PM'')"
  proof -
    consider "h = 12" | "h = 11" | "h < 11" using range by linarith
    then show ?thesis
    proof cases
      case 1
      with range show ?thesis by (auto simp: endTime_def minutesOfDay_def)
    next
      case 2
      with range show ?thesis by (auto simp: endTime_def minutesOfDay_def)
    next
      case 3
      with range have "(h + 1) mod 12 = h mod 12 + 1" "h mod 12 = h"
        by simp_all
      with 3 range show ?thesis by (auto simp: endTime_def minutesOfDay_def)
    qed
  qed
  from wrap other later show ?thesis by blast
qed

theorem end_time_one_hour_later_witness:
  "(3::nat) \<noteq> 11 \<and> (3::nat) \<noteq> 12 \<and> 1 \<le> (3::nat) \<and> (3::nat) \<le> 12 \<and> (30::nat) < 60 \<and>
   endTime \<lparr>hour = 3, minute = 30, period = ''PM''\<rparr> = (4, 30, ''PM'') \<and>
   minutesOfDay 4 30 ''PM'' = (minutesOfDay 3 30 ''PM'' + 60) mod 1440"
  using end_time_one_hour_later [of 30 3 "''PM''"] by (simp add: endTime_def)

section \<open>The agent call\<close>

lemma filter_first:
  "i < length xs \<Longrightarrow> P (xs ! i) \<Longrightarrow> \<forall>j<i. \<not> P (xs ! j) \<Longrightarrow>
   filter P xs = xs ! i # filter P (drop (Suc i) xs)"
proof (induction xs arbitrary: i)
  case Nil
  then show ?case by simp
next
  case (Cons x xs)
  show ?case
  proof (cases i)
    case 0
    with Cons.prems show ?thesis by simp
  next
    case (Suc k)
    with Cons.prems have "\<not> P x" by auto
    moreover from Suc Cons.prems have "k < length xs" "P (xs ! k)" "\<forall>j<k. \<not> P (xs ! j)"
      by auto
    ultimately show ?thesis using Cons.IH [of k] Suc by simp
  qed
qed

lemma findIndex_first:
  "i < length xs \<Longrightarrow> P (xs ! i) \<Longrightarrow> \<forall>j<i. \<not> P (xs ! j) \<Longrightarrow> findIndex P xs = int i"
proof (induction xs arbitrary: i)
  case Nil
  then show ?case by simp
next
  case (Cons x xs)
  show ?case
  proof (cases i)
    case 0
    with Cons.prems show ?thesis by simp
  next
    case (Suc k)
    with Cons.prems have "\<not> P x" by auto
    moreover from Suc Cons.prems have "k < length xs" "P (xs ! k)" "\<forall>j<k. \<not> P (xs ! j)"
      by auto
    ultimately show ?thesis using Cons.IH [of k] Suc by (simp add: Let_def)
  qed
qed

text \<open>
  Claim C3. When step \<open>i\<close> is the first step whose observation has a success marker,
  the call returns that observation as its output and the steps up to and including step
  \<open>i\<close>: every later step is removed, however many steps the agent ran.
\<close>

theorem first_success_decides_output:
  assumes steps: "intermediateSteps result = Some steps"
    and i: "i < length steps"
    and succ: "successfulStep (steps ! i)"
    and first: "\<forall>j<i. \<not> successfulStep (steps ! j)"
  shows "finalOutput (agentCall result) = observation (steps ! i) \<and>
         intermediateSteps (agentCall result) = Some (take (Suc i) steps)"
proof -
  have flt: "filter successfulStep steps = steps ! i # filter successfulStep (drop (Suc i) steps)"
    using i succ first by (rule filter_first)
  have "\<forall>j<i. \<not> (steps ! j = steps ! i)"
    using succ first by metis
  with i have idx: "indexOf steps (steps ! i) = int i"
    unfolding indexOf_def by (intro findIndex_first) simp_all
  have sl: "slice0 steps (int i + 1) = take (Suc i) steps"
    by (simp add: slice0_def nat_add_distrib)
  have lst: "last (take (Suc i) steps) = steps ! i"
    using i by (simp add: take_Suc_conv_app_nth)
  have ne: "take (Suc i) steps \<noteq> []"
    using i by auto
  from i have pos: "0 < length steps" by linarith
  show ?thesis
    unfolding agentCall_def using steps pos flt idx sl lst ne
    by (simp add: Let_def)
qed

theorem first_success_decides_output_witness:
  "successfulStep \<lparr>tool = ''send_email'', toolInput = ''a@b.c'', observation = Some ''Successfully sent email to a@b.c''\<rparr> \<and>
   \<not> successfulStep \<lparr>tool = ''wait'', toolInput = ''500'', observation = Some ''Waited for 500ms''\<rparr> \<and>
   finalOutput (agentCall
     \<lparr>finalOutput = Some ''Agent stopped due to max iterations.'',
      intermediateSteps = Some
        [\<lparr>tool = ''wait'', toolInput = ''500'', observation = Some ''Waited for 500ms''\<rparr>,
         \<lparr>tool = ''send_email'', toolInput = ''a@b.c'', observation = Some ''Successfully sent email to a@b.c''\<rparr>,
         \<lparr>tool = ''send_email'', toolInput = ''a@b.c'', observation = Some ''Successfully sent email to a@b.c''\<rparr>]\<rparr>)
     = Some ''Successfully sent email to a@b.c'' \<and>
   intermediateSteps (agentCall
     \<lparr>finalOutput = Some ''Agent stopped due to max iterations.'',
      intermediateSteps = Some
        [\<lparr>tool = ''wait'', toolInput = ''500'', observation = Some ''Waited for 500ms''\<rparr>,
         \<lparr>tool = ''send_email'', toolInput = ''a@b.c'', observation = Some ''Successfully sent email to a@b.c''\<rparr>,
         \<lparr>tool = ''send_email'', toolInput = ''a@b.c'', observation = Some ''Successfully sent email to a@b.c''\<rparr>]\<rparr>)
     = Some
        [\<lparr>tool = ''wait'', toolInput = ''500'', observation = Some ''Waited for 500ms''\<rparr>,
         \<lparr>tool = ''send_email'', toolInput = ''a@b.c'', observation = Some ''Successfully sent email to a@b.c''\<rparr>]"
proof -
  let ?w = "\<lparr>tool = ''wait'', toolInput = ''500'', observation = Some ''Waited for 500ms''\<rparr>"
  let ?s = "\<lparr>tool = ''send_email'', toolInput = ''a@b.c'', observation = Some ''Successfully sent email to a@b.c''\<rparr>"
  let ?r = "\<lparr>finalOutput = Some ''Agent stopped due to max iterations.'',
             intermediateSteps = Some [?w, ?s, ?s]\<rparr>"
  have s: "successfulStep ?s" by code_simp
  have w: "\<not> successfulStep ?w" by code_simp
  have h1: "intermediateSteps ?r = Some [?w, ?s, ?s]" by simp
  have h2: "1 < length [?w, ?s, ?s]" by simp
  have h3: "successfulStep ([?w, ?s, ?s] ! 1)" using s by simp
  have h4: "\<forall>j<1. \<not> successfulStep ([?w, ?s, ?s] ! j)" using w by simp
  show ?thesis
    using first_success_decides_output [OF h1 h2 h3 h4] s w by simp
qed

section \<open>Completing a request\<close>

lemma complete_keeps_completed:
  "isCompleted (tbl ident) \<Longrightarrow> isCompleted (snd (complete ident' body tbl) ident)"
  by (cases "tbl ident'") (auto simp: complete_def isCompleted_def Let_def)

lemma completeAll_keeps_completed:
  "isCompleted (tbl ident) \<Longrightarrow> isCompleted (completeAll calls tbl ident)"
proof (induction calls arbitrary: tbl)
  case Nil
  then show ?case by simp
next
  case (Cons call calls)
  obtain ident' body where call: "call = (ident', body)" by (cases call)
  from Cons.prems have "isCompleted (snd (complete ident' body tbl) ident)"
    by (rule complete_keeps_completed)
  then show ?case using Cons.IH call by simp
qed

text \<open>
  Claim C4 as stated fails at a second completion: the endpoint does not look at the
  status, so a second call for the same identifier answers success again and writes the
  fields of its body into the entry. Here a screenshot is completed with a file name and
  then with an error; the entry gets the error.
\<close>

theorem second_completion_counterexample:
  "fst (complete ''1700000000000''
         \<lparr>bodyDataUrl = None, bodyError = Some ''Screenshot rate limit exceeded'',
          bodySuccess = False, bodyFilename = None, bodyDownloadId = None\<rparr>
         (snd (complete ''1700000000000''
                \<lparr>bodyDataUrl = None, bodyError = None, bodySuccess = True,
                 bodyFilename = Some ''screenshot-1.png'', bodyDownloadId = Some 7\<rparr>
                (Map.empty(''1700000000000'' \<mapsto> screenshotRequest))))) = Ok200 \<and>
   map_option error
     (snd (complete ''1700000000000''
            \<lparr>bodyDataUrl = None, bodyError = None, bodySuccess = True,
             bodyFilename = Some ''screenshot-1.png'', bodyDownloadId = Some 7\<rparr>
            (Map.empty(''1700000000000'' \<mapsto> screenshotRequest))) ''1700000000000'') = Some None \<and>
   map_option error
     (snd (complete ''1700000000000''
         \<lparr>bodyDataUrl = None, bodyError = Some ''Screenshot rate limit exceeded'',
          bodySuccess = False, bodyFilename = None, bodyDownloadId = None\<rparr>
         (snd (complete ''1700000000000''
                \<lparr>bodyDataUrl = None, bodyError = None, bodySuccess = True,
                 bodyFilename = Some ''screenshot-1.png'', bodyDownloadId = Some 7\<rparr>
                (Map.empty(''1700000000000'' \<mapsto> screenshotRequest))))) ''1700000000000'')
     = Some (Some ''Screenshot rate limit exceeded'')"
  by (simp add: complete_def screenshotRequest_def)

text \<open>
  Claim C4, amended. For an unknown identifier the table is unchanged and the answer is
  404. For a known one the answer is success, the entry is completed and stays completed
  after any further calls of the endpoint, and no other entry changes. A call for an
  entry that is completed already answers success too; it leaves the table as it is when
  its body has no data URL, no success with a file name and no error.
\<close>

theorem complete_unknown_pending_repeated:
  "(tbl ident = None \<longrightarrow> complete ident body tbl = (NotFound404, tbl)) \<and>
   (\<forall>request. tbl ident = Some request \<longrightarrow>
      fst (complete ident body tbl) = Ok200 \<and>
      isCompleted (snd (complete ident body tbl) ident) \<and>
      isCompleted (completeAll calls (snd (complete ident body tbl)) ident) \<and>
      (\<forall>other. other \<noteq> ident \<longrightarrow> snd (complete ident body tbl) other = tbl other) \<and>
      (truthy (bodyDataUrl body) \<longrightarrow>
         map_option dataUrl (snd (complete ident body tbl) ident) = Some (bodyDataUrl body)) \<and>
      (bodySuccess body \<and> truthy (bodyFilename body) \<longrightarrow>
         map_option success (snd (complete ident body tbl) ident) = Some True \<and>
         map_option filename (snd (complete ident body tbl) ident) = Some (bodyFilename body) \<and>
         map_option downloadId (snd (complete ident body tbl) ident) = Some (bodyDownloadId body)) \<and>
      (truthy (bodyError body) \<longrightarrow>
         map_option error (snd (complete ident body tbl) ident) = Some (bodyError body))) \<and>
   (\<forall>request. tbl ident = Some request \<and> status request = ''completed'' \<and>
      \<not> truthy (bodyDataUrl body) \<and> \<not> (bodySuccess body \<and> truthy (bodyFilename body)) \<and>
      \<not> truthy (bodyError body) \<longrightarrow>
      complete ident body tbl = (Ok200, tbl))"
proof -
  have unknown: "complete ident body tbl = (NotFound404, tbl)" if "tbl ident = None"
    using that by (simp add: complete_def)
  have known: "fst (complete ident body tbl) = Ok200 \<and>
      isCompleted (snd (complete ident body tbl) ident) \<and>
      isCompleted (completeAll calls (snd (complete ident body tbl)) ident) \<and>
      (\<forall>other. other \<noteq> ident \<longrightarrow> snd (complete ident body tbl) other = tbl other) \<and>
      (truthy (bodyDataUrl body) \<longrightarrow>
         map_option dataUrl (snd (complete ident body tbl) ident) = Some (bodyDataUrl body)) \<and>
      (bodySuccess body \<and> truthy (bodyFilename body) \<longrightarrow>
         map_option success (snd (complete ident body tbl) ident) = Some True \<and>
         map_option filename (snd (complete ident body tbl) ident) = Some (bodyFilename body) \<and>
         map_option downloadId (snd (complete ident body tbl) ident) = Some (bodyDownloadId body)) \<and>
      (truthy (bodyError body) \<longrightarrow>
         map_option error (snd (complete ident body tbl) ident) = Some (bodyError body))"
    if "tbl ident = Some request" for request
  proof -
    have c: "isCompleted (snd (complete ident body tbl) ident)"
      using that by (simp add: complete_def isCompleted_def Let_def)
    then have "isCompleted (completeAll calls (snd (complete ident body tbl)) ident)"
      by (rule completeAll_keeps_completed)
    with c that show ?thesis by (simp add: complete_def Let_def)
  qed
  have again: "complete ident body tbl = (Ok200, tbl)"
    if "tbl ident = Some request \<and> status request = ''completed'' \<and>
      \<not> truthy (bodyDataUrl body) \<and> \<not> (bodySuccess body \<and> truthy (bodyFilename body)) \<and>
      \<not> truthy (bodyError body)" for request
  proof -
    from that have "request\<lparr>status := ''completed''\<rparr> = request" by simp
    with that have "tbl(ident \<mapsto> request\<lparr>status := ''completed''\<rparr>) = tbl"
      by (simp add: fun_upd_idem)
    with that show ?thesis by (auto simp: complete_def Let_def)
  qed
  from unknown known again show ?thesis by blast
qed

theorem complete_unknown_pending_repeated_witness:
  "complete ''17'' \<lparr>bodyDataUrl = None, bodyError = None, bodySuccess = False,
                    bodyFilename = None, bodyDownloadId = None\<rparr>
            (Map.empty(''42'' \<mapsto> screenshotRequest)) =
     (NotFound404, Map.empty(''42'' \<mapsto> screenshotRequest)) \<and>
   fst (complete ''42'' \<lparr>bodyDataUrl = None, bodyError = None, bodySuccess = False,
                         bodyFilename = None, bodyDownloadId = None\<rparr>
            (Map.empty(''42'' \<mapsto> screenshotRequest))) = Ok200 \<and>
   isCompleted (snd (complete ''42'' \<lparr>bodyDataUrl = None, bodyError = None, bodySuccess = False,
                         bodyFilename = None, bodyDownloadId = None\<rparr>
            (Map.empty(''42'' \<mapsto> screenshotRequest))) ''42'') \<and>
   complete ''42'' \<lparr>bodyDataUrl = None, bodyError = None, bodySuccess = False,
                    bodyFilename = None, bodyDownloadId = None\<rparr>
            (Map.empty(''42'' \<mapsto> screenshotRequest\<lparr>status := ''completed''\<rparr>)) =
     (Ok200, Map.empty(''42'' \<mapsto> screenshotRequest\<lparr>status := ''completed''\<rparr>))"
proof -
  let ?b = "\<lparr>bodyDataUrl = None, bodyError = None, bodySuccess = False,
             bodyFilename = None, bodyDownloadId = None\<rparr>"
  let ?t = "Map.empty(''42'' \<mapsto> screenshotRequest)"
  let ?c = "Map.empty(''42'' \<mapsto> screenshotRequest\<lparr>status := ''completed''\<rparr>)"
  have none: "?t ''17'' = None" by simp
  have some: "?t ''42'' = Some screenshotRequest" by simp
  have compl: "?c ''42'' = Some (screenshotRequest\<lparr>status := ''completed''\<rparr>) \<and>
      status (screenshotRequest\<lparr>status := ''completed''\<rparr>) = ''completed'' \<and>
      \<not> truthy (bodyDataUrl ?b) \<and> \<not> (bodySuccess ?b \<and> truthy (bodyFilename ?b)) \<and>
      \<not> truthy (bodyError ?b)"
    by simp
  from complete_unknown_pending_repeated [of ?t "''17''" ?b "[]"] none
  have 1: "complete ''17'' ?b ?t = (NotFound404, ?t)"
    by blast
  from complete_unknown_pending_repeated [of ?t "''42''" ?b "[]"] some
  have 2: "fst (complete ''42'' ?b ?t) = Ok200 \<and> isCompleted (snd (complete ''42'' ?b ?t) ''42'')"
    by blast
  from complete_unknown_pending_repeated [of ?c "''42''" ?b "[]"] compl
  have 3: "complete ''42'' ?b ?c = (Ok200, ?c)"
    by blast
  from 1 2 3 show ?thesis
    by blast
qed

section \<open>Request identifiers\<close>

lemma showNat_small: "n < 10 \<Longrightarrow> showNat n = [digitChars ! n]"
  by (subst showNat.simps) simp

lemma showNat_large:
  "\<not> n < 10 \<Longrightarrow> showNat n = showNat (n div 10) @ [digitChars ! (n mod 10)]"
  by (subst showNat.simps) simp

lemma showNat_nonempty: "showNat n \<noteq> []"
  by (cases "n < 10") (simp_all add: showNat_small showNat_large)

lemma digit_inj: "a < 10 \<Longrightarrow> b < 10 \<Longrightarrow> digitChars ! a = digitChars ! b \<Longrightarrow> a = b"
proof -
  assume a: "a < 10" and b: "b < 10" and eq: "digitChars ! a = digitChars ! b"
  have "distinct digitChars" "length digitChars = 10"
    by (simp_all add: digitChars_def)
  with a b eq show "a = b"
    by (simp add: nth_eq_iff_index_eq)
qed

lemma showNat_inj: "showNat a = showNat b \<Longrightarrow> a = b"
proof (induction a arbitrary: b rule: showNat.induct)
  case (1 n)
  show ?case
  proof (cases "n < 10")
    case small: True
    show ?thesis
    proof (cases "b < 10")
      case True
      with small "1.prems" show ?thesis
        by (simp add: showNat_small digit_inj)
    next
      case False
      with small "1.prems" showNat_nonempty [of "b div 10"] show ?thesis
        by (simp add: showNat_small showNat_large)
    qed
  next
    case large: False
    show ?thesis
    proof (cases "b < 10")
      case True
      with large "1.prems" showNat_nonempty [of "n div 10"] show ?thesis
        by (simp add: showNat_small showNat_large)
    next
      case False
      with large "1.prems" have eq: "showNat (n div 10) = showNat (b div 10)"
        "digitChars ! (n mod 10) = digitChars ! (b mod 10)"
        by (simp_all add: showNat_large)
      from large eq(1) have "n div 10 = b div 10"
        by (rule "1.IH")
      moreover from eq(2) have "n mod 10 = b mod 10"
        by (intro digit_inj) simp_all
      ultimately show ?thesis
        by (metis div_mult_mod_eq)
    qed
  qed
qed

lemma distinct_clocks_keep_both:
  assumes "c1 \<noteq> c2"
  shows "fst (enqueueTab c1 u1 n1 tbl) \<noteq> fst (enqueueTab c2 u2 n2 (snd (enqueueTab c1 u1 n1 tbl))) \<and>
         snd (enqueueTab c2 u2 n2 (snd (enqueueTab c1 u1 n1 tbl))) (showNat c1) = Some (tabRequest u1 n1)"
  using assms showNat_inj [of c1 c2] by (auto simp: enqueueTab_def Let_def)

lemma showNat_example: "showNat 1700000000000 = ''1700000000000''"
  by (simp add: showNat.simps digitChars_def)

text \<open>
  Claim C9, at two requests in one millisecond. The identifier is the text of the clock,
  so two calls that read the same clock value get the same identifier, and the second
  entry replaces the first in the table: the request for the first address is lost, and
  so is a screenshot request stored in that millisecond. (Calls that read different
  clock values get different identifiers, by the two lemmas above.)
\<close>

theorem same_clock_overwrites:
  "fst (enqueueTab 1700000000000 (Str ''https://a.example'') (Str ''https://a.example'') Map.empty) =
   fst (enqueueTab 1700000000000 (Str ''https://b.example'') (Str ''https://b.example'')
         (snd (enqueueTab 1700000000000 (Str ''https://a.example'') (Str ''https://a.example'') Map.empty))) \<and>
   snd (enqueueTab 1700000000000 (Str ''https://b.example'') (Str ''https://b.example'')
         (snd (enqueueTab 1700000000000 (Str ''https://a.example'') (Str ''https://a.example'') Map.empty)))
     ''1700000000000'' = Some (tabRequest (Str ''https://b.example'') (Str ''https://b.example'')) \<and>
   snd (enqueueTab 1700000000000 (Str ''https://b.example'') (Str ''https://b.example'')
         (snd (enqueueScreenshot 1700000000000 Map.empty)))
     ''1700000000000'' = Some (tabRequest (Str ''https://b.example'') (Str ''https://b.example''))"
  using showNat_example by (simp add: enqueueTab_def enqueueScreenshot_def Let_def)

section \<open>The tab tools\<close>

text \<open>
  Claim C8 as stated fails for navigate_browser when the request is not seen completed
  after the wait: the text it returns starts with ``Requested to open'', not with a
  success marker.
\<close>

theorem navigate_unobserved_counterexample:
  "fst (navigate_browser 1700000000000 (\<lambda>tbl. tbl) ''https://example.com'' Map.empty) =
     Inr ''Requested to open https://example.com in a new tab in your current browser window.'' \<and>
   \<not> startsWith ''Requested to open https://example.com in a new tab in your current browser window.'' ''Successfully'' \<and>
   \<not> startsWith ''Requested to open https://example.com in a new tab in your current browser window.'' ''Task completed''"
  by (simp add: navigate_browser_def enqueueTab_def navigateResult_def isCompleted_def
        tabRequest_def startsWith_def Let_def)

text \<open>
  Claim C8, amended. open_new_tab with a target returns normally, whatever happens to
  the table during the wait, and its text starts with ``Task completed'' whether or not
  the request was seen completed. navigate_browser always returns normally; its text
  starts with ``Successfully opened'' when the request was seen completed, and with
  ``Requested to open'', which is no success marker, when it was not.
\<close>

theorem tab_tools_return_text:
  "(\<forall>target. openTabTarget args = Inr target \<longrightarrow>
      (\<exists>text. fst (open_new_tab clock during args tbl) = Inr text \<and> startsWith text ''Task completed'')) \<and>
   (\<exists>text. fst (navigate_browser clock during u tbl) = Inr text \<and>
      (if isCompleted (during (snd (enqueueTab clock (Str u) (Str u) tbl)) (showNat clock))
       then startsWith text ''Successfully opened ''
       else startsWith text ''Requested to open '' \<and> \<not> startsWith text ''Successfully'' \<and>
            \<not> startsWith text ''Task completed''))"
proof -
  have open_tab: "\<exists>text. fst (open_new_tab clock during args tbl) = Inr text \<and> startsWith text ''Task completed''"
    if "openTabTarget args = Inr target" for target
  proof -
    obtain finalUrl name where "target = (finalUrl, name)" by (cases target)
    with that show ?thesis
      by (simp add: open_new_tab_def enqueueTab_def openTabResult_def Let_def startsWith_def)
  qed
  have nav: "\<exists>text. fst (navigate_browser clock during u tbl) = Inr text \<and>
      (if isCompleted (during (snd (enqueueTab clock (Str u) (Str u) tbl)) (showNat clock))
       then startsWith text ''Successfully opened ''
       else startsWith text ''Requested to open '' \<and> \<not> startsWith text ''Successfully'' \<and>
            \<not> startsWith text ''Task completed'')"
    by (simp add: navigate_browser_def enqueueTab_def navigateResult_def Let_def startsWith_def)
  from open_tab nav show ?thesis by blast
qed

lemma gmail_target:
  "openTabTarget \<lparr>service = Some ''gmail'', tabUrl = None, search = None\<rparr> =
     Inr (Str ''https://mail.google.com'', Str ''Gmail'')"
  by code_simp

theorem tab_tools_return_text_witness:
  "openTabTarget \<lparr>service = Some ''gmail'', tabUrl = None, search = None\<rparr> =
     Inr (Str ''https://mail.google.com'', Str ''Gmail'') \<and>
   (\<exists>text. fst (open_new_tab 1700000000000 (\<lambda>tbl. tbl)
                  \<lparr>service = Some ''gmail'', tabUrl = None, search = None\<rparr> Map.empty) = Inr text \<and>
           startsWith text ''Task completed'')"
  using tab_tools_return_text
          [of "\<lparr>service = Some ''gmail'', tabUrl = None, search = None\<rparr>" 1700000000000
              "\<lambda>tbl. tbl" Map.empty "''https://example.com''"]
        gmail_target
  by blast

text \<open>
  A service name with no entry in the tables. With no address and no search text, a
  name for which the lookups give \<^verbatim>\<open>undefined\<close> and which is not ``google'' makes
  open_new_tab throw its error and leave the table as it is.
\<close>

lemma unknown_service_rejected:
  assumes given: "truthy (service args)" "\<not> truthy (tabUrl args)" "\<not> truthy (search args)"
    and unknown:
      "if startsWith (toLowerCase (strOf (service args))) ''new ''
       then objGet CREATE_NEW_URLS (replaceFirst ''new '' [] (toLowerCase (strOf (service args)))) = Undefined
       else objGet GOOGLE_SERVICES (toLowerCase (strOf (service args))) = Undefined \<and>
            toLowerCase (strOf (service args)) \<noteq> ''google''"
  shows "open_new_tab clock during args tbl = (Inl missingTargetError, tbl)"
proof -
  have url: "\<not> truthyVal (optVal (tabUrl args))"
    using given(2) by (cases "tabUrl args") simp_all
  have "openTabTarget args = Inl missingTargetError"
  proof (cases "startsWith (toLowerCase (strOf (service args))) ''new ''")
    case True
    with unknown given url show ?thesis
      by (simp add: openTabTarget_def Let_def del: replaceFirst.simps)
  next
    case False
    with unknown given url show ?thesis
      by (simp add: openTabTarget_def Let_def del: replaceFirst.simps)
  qed
  then show ?thesis
    by (simp add: open_new_tab_def)
qed

lemma netflix_target:
  "openTabTarget \<lparr>service = Some ''netflix'', tabUrl = None, search = None\<rparr> =
     Inl ''Please provide either a service name, URL, or search query''"
  by code_simp

lemma unknown_service_example:
  "open_new_tab 1700000000000 (\<lambda>tbl. tbl)
         \<lparr>service = Some ''netflix'', tabUrl = None, search = None\<rparr> Map.empty =
     (Inl ''Please provide either a service name, URL, or search query'', Map.empty)"
  by (simp only: open_new_tab_def netflix_target sum.case)

lemma constructor_target:
  "openTabTarget \<lparr>service = Some ''constructor'', tabUrl = None, search = None\<rparr> =
     Inr (Inherited ''constructor'', Str ''Constructor'')"
  by code_simp

text \<open>
  Claim C10, at the service name ``constructor''. The name is no service of the table,
  not ``google'' and not ``new'' with a document type, and no address can be derived from
  it; but the lookup in the object literal finds the property every object inherits, a
  function, which is truthy. open_new_tab throws no error, stores a request whose
  address is that function, and returns its text.
\<close>

theorem inherited_name_is_enqueued:
  "openTabTarget \<lparr>service = Some ''constructor'', tabUrl = None, search = None\<rparr> =
     Inr (Inherited ''constructor'', Str ''Constructor'') \<and>
   fst (open_new_tab 1700000000000 (\<lambda>tbl. tbl)
         \<lparr>service = Some ''constructor'', tabUrl = None, search = None\<rparr> Map.empty) =
     Inr ''Task completed! I have requested to open Constructor in a new tab.'' \<and>
   snd (open_new_tab 1700000000000 (\<lambda>tbl. tbl)
         \<lparr>service = Some ''constructor'', tabUrl = None, search = None\<rparr> Map.empty) ''1700000000000'' =
     Some (tabRequest (Inherited ''constructor'') (Str ''Constructor''))"
  using showNat_example
  by (simp add: constructor_target open_new_tab_def enqueueTab_def openTabResult_def isCompleted_def
        tabRequest_def Let_def)


end
